theory Spec2Isabelle
  imports Complex_Main
begin

section \<open>The SIR simulator of \<^verbatim>\<open>sir_model_py.py\<close>\<close>

text \<open>
  The two simulators of \<^verbatim>\<open>src/sir_model_py.py\<close>, \<^verbatim>\<open>sir_model\<close> and
  \<^verbatim>\<open>simulate_intervention\<close>, are embedded line by line. Both allocate three numpy
  arrays of length \<^verbatim>\<open>timesteps\<close>, write the initial state at index 0, run the
  forward-Euler loop over \<^verbatim>\<open>range(timesteps-1)\<close> and pack the arrays, with the time
  labels \<^verbatim>\<open>range(1, timesteps+1)\<close>, into a data frame.

  A parameter is the number that was passed. \<^verbatim>\<open>N\<close>, \<^verbatim>\<open>I0\<close> and \<^verbatim>\<open>R0\<close> are
  ints by their docstring: Python computes \<^verbatim>\<open>N - I0 - R0\<close> exactly, and the arrays store
  ints of magnitude up to \<open>2^53\<close> unchanged. The rates are floats; a decimal literal such
  as \<^verbatim>\<open>0.1\<close> denotes the float nearest to it.
\<close>

subsection \<open>Values and failures\<close>

text \<open>
  The exceptions the two functions can raise: numpy's \<^verbatim>\<open>ValueError\<close> (an array of
  negative length, columns of different lengths) and \<^verbatim>\<open>IndexError\<close> (an index
  outside an array).
\<close>

datatype py_error = ValueError | IndexError

text \<open>
  The arrays hold 64-bit floats. A finite float is modelled by the real number it stands
  for, and \<open>None\<close> stands for a value that is not a finite number (numpy's \<^verbatim>\<open>nan\<close>,
  \<^verbatim>\<open>inf\<close> and \<^verbatim>\<open>-inf\<close>). The sign of a zero is not modelled.
\<close>

type_synonym fval = "real option"

text \<open>
  Rounding to the nearest float, ties to the even significand: \<open>pow2 k\<close> is \<open>2\<close> to the
  power \<open>k\<close>, \<open>bitlen n\<close> the number of binary digits of \<open>n\<close>, and \<open>expo x\<close>, for a
  positive \<open>x\<close>, the exponent \<open>e\<close> with \<open>2^e \<le> x < 2^(e+1)\<close>. A float has a significand of
  53 bits and an exponent between \<open>-1022\<close> and \<open>1023\<close>, so the floats near \<open>x\<close> are the
  multiples of \<open>q = 2^(e-52)\<close>, where \<open>e\<close> is the exponent of \<open>x\<close>, or \<open>-1022\<close> if that is
  larger (the subnormal range). \<open>round_even y\<close> is the integer nearest to \<open>y\<close>, the even
  one of the two when \<open>y\<close> lies halfway (\<open>tie_even\<close> chooses between the floor \<open>f\<close> of
  \<open>y\<close> and \<open>f + 1\<close> by the distance \<open>d\<close> of \<open>y\<close> from \<open>f\<close>). \<open>round_to q x\<close> is the
  multiple of \<open>q\<close> nearest to \<open>x\<close>, and \<open>round64\<close> rounds a real number to a float; a
  result of magnitude \<open>2^1024\<close> or more is an overflow, which gives an infinity.
\<close>

definition pow2 :: "int \<Rightarrow> real" where
  "pow2 k = (if 0 \<le> k then 2 ^ nat k else 1 / 2 ^ nat (- k))"

fun bitlen :: "nat \<Rightarrow> nat" where
  "bitlen n = (if n = 0 then 0 else Suc (bitlen (n div 2)))"

declare bitlen.simps [simp del]

definition expo :: "real \<Rightarrow> int" where
  "expo x = (if 1 \<le> x then int (bitlen (nat \<lfloor>x\<rfloor>)) - 1
             else - int (bitlen (nat (\<lceil>1 / x\<rceil> - 1))))"

definition tie_even :: "int \<Rightarrow> real \<Rightarrow> int" where
  "tie_even f d =
     (if d < 1 / 2 then f else if 1 / 2 < d then f + 1 else if even f then f else f + 1)"

definition round_even :: "real \<Rightarrow> int" where
  "round_even y = tie_even \<lfloor>y\<rfloor> (y - of_int \<lfloor>y\<rfloor>)"

definition check_overflow :: "real \<Rightarrow> fval" where
  "check_overflow y = (if 2 ^ 1024 \<le> \<bar>y\<bar> then None else Some y)"

definition round_to :: "real \<Rightarrow> real \<Rightarrow> fval" where
  "round_to q x = check_overflow (of_int (round_even (x / q)) * q)"

definition round64 :: "real \<Rightarrow> fval" where
  "round64 x =
     (if x = 0 then Some 0 else round_to (pow2 (max (expo \<bar>x\<bar>) (- 1022) - 52)) x)"

text \<open>
  The arithmetic of the loop: each operation on two finite floats is the exact result,
  rounded. An operand that is not finite gives a result that is not finite (the loop only
  adds, subtracts and multiplies elements and divides them by the parameter \<^verbatim>\<open>N\<close>), and
  numpy's division of a float by zero raises nothing and gives \<^verbatim>\<open>nan\<close> or an infinity.
\<close>

fun fadd :: "fval \<Rightarrow> fval \<Rightarrow> fval" where
  "fadd (Some a) (Some b) = round64 (a + b)"
| "fadd _ _ = None"

fun fsub :: "fval \<Rightarrow> fval \<Rightarrow> fval" where
  "fsub (Some a) (Some b) = round64 (a - b)"
| "fsub _ _ = None"

fun fmul :: "fval \<Rightarrow> fval \<Rightarrow> fval" where
  "fmul (Some a) (Some b) = round64 (a * b)"
| "fmul _ _ = None"

fun fdiv :: "fval \<Rightarrow> real \<Rightarrow> fval" where
  "fdiv (Some a) n = (if n = 0 then None else round64 (a / n))"
| "fdiv None n = None"

definition bind_err :: "py_error + 'a \<Rightarrow> ('a \<Rightarrow> py_error + 'b) \<Rightarrow> py_error + 'b" where
  "bind_err m f = (case m of Inl e \<Rightarrow> Inl e | Inr x \<Rightarrow> f x)"

subsection \<open>Arrays, ranges and data frames\<close>

text \<open>\<^verbatim>\<open>np.zeros(n)\<close>: \<^verbatim>\<open>n\<close> zeros, and a \<^verbatim>\<open>ValueError\<close> for a negative \<^verbatim>\<open>n\<close>.\<close>

definition np_zeros :: "int \<Rightarrow> py_error + fval list" where
  "np_zeros n = (if n < 0 then Inl ValueError else Inr (replicate (nat n) (Some 0)))"

text \<open>
  Reading and writing an array at a non-negative index: an \<^verbatim>\<open>IndexError\<close> outside
  the array.
\<close>

definition getitem :: "fval list \<Rightarrow> nat \<Rightarrow> py_error + fval" where
  "getitem xs i = (if i < length xs then Inr (xs ! i) else Inl IndexError)"

definition setitem :: "fval list \<Rightarrow> nat \<Rightarrow> fval \<Rightarrow> py_error + fval list" where
  "setitem xs i v = (if i < length xs then Inr (xs[i := v]) else Inl IndexError)"

text \<open>\<^verbatim>\<open>range(n)\<close> and \<^verbatim>\<open>range(a, b)\<close>; both are empty when the bound is too small.\<close>

definition py_range :: "int \<Rightarrow> nat list" where
  "py_range n = [0..<nat n]"

definition py_range2 :: "int \<Rightarrow> int \<Rightarrow> int list" where
  "py_range2 a b = [a..b - 1]"

text \<open>The three arrays the loop updates in place.\<close>

record arrays =
  arr_S :: "fval list"
  arr_I :: "fval list"
  arr_R :: "fval list"

text \<open>A \<^verbatim>\<open>for\<close> loop over a list of indices; an exception in the body ends it.\<close>

fun for_range :: "(nat \<Rightarrow> 's \<Rightarrow> py_error + 's) \<Rightarrow> nat list \<Rightarrow> 's \<Rightarrow> py_error + 's" where
  "for_range f [] s = Inr s"
| "for_range f (t # ts) s = (case f t s of Inl e \<Rightarrow> Inl e | Inr s' \<Rightarrow> for_range f ts s')"

text \<open>
  The data frame the functions return: four columns. \<^verbatim>\<open>pd.DataFrame\<close> raises a
  \<^verbatim>\<open>ValueError\<close> when the columns differ in length.
\<close>

record dataframe =
  time :: "int list"
  susceptible :: "fval list"
  infectious :: "fval list"
  recovered :: "fval list"

definition pd_DataFrame ::
    "int list \<Rightarrow> fval list \<Rightarrow> fval list \<Rightarrow> fval list \<Rightarrow> py_error + dataframe" where
  "pd_DataFrame ts s i r =
     (if length s = length ts \<and> length i = length ts \<and> length r = length ts
      then Inr \<lparr>time = ts, susceptible = s, infectious = i, recovered = r\<rparr>
      else Inl ValueError)"

subsection \<open>\<^verbatim>\<open>sir_model\<close>\<close>

text \<open>The body of the loop at lines 44 to 50, statement by statement.\<close>

definition sir_body :: "real \<Rightarrow> real \<Rightarrow> real \<Rightarrow> nat \<Rightarrow> arrays \<Rightarrow> py_error + arrays" where
  "sir_body N beta gamma t a =
     bind_err (getitem (arr_S a) t) (\<lambda>s0.
     bind_err (getitem (arr_I a) t) (\<lambda>i0.
     let new_infections = fdiv (fmul (fmul (Some beta) s0) i0) N in
     bind_err (getitem (arr_I a) t) (\<lambda>i1.
     let new_recoveries = fmul (Some gamma) i1 in
     bind_err (getitem (arr_S a) t) (\<lambda>s1.
     bind_err (setitem (arr_S a) (t + 1) (fsub s1 new_infections)) (\<lambda>S'.
     bind_err (getitem (arr_I a) t) (\<lambda>i2.
     bind_err (setitem (arr_I a) (t + 1) (fsub (fadd i2 new_infections) new_recoveries)) (\<lambda>I'.
     bind_err (getitem (arr_R a) t) (\<lambda>r0.
     bind_err (setitem (arr_R a) (t + 1) (fadd r0 new_recoveries)) (\<lambda>R'.
     Inr \<lparr>arr_S = S', arr_I = I', arr_R = R'\<rparr>)))))))))"

definition sir_model ::
    "real \<Rightarrow> real \<Rightarrow> real \<Rightarrow> real \<Rightarrow> real \<Rightarrow> int \<Rightarrow> py_error + dataframe" where
  "sir_model N I0 R0 beta gamma timesteps =
     (let S0 = N - I0 - R0 in
      bind_err (np_zeros timesteps) (\<lambda>S.
      bind_err (np_zeros timesteps) (\<lambda>I.
      bind_err (np_zeros timesteps) (\<lambda>R.
      bind_err (setitem S 0 (Some S0)) (\<lambda>S.
      bind_err (setitem I 0 (Some I0)) (\<lambda>I.
      bind_err (setitem R 0 (Some R0)) (\<lambda>R.
      bind_err (for_range (sir_body N beta gamma) (py_range (timesteps - 1))
                  \<lparr>arr_S = S, arr_I = I, arr_R = R\<rparr>) (\<lambda>a.
      pd_DataFrame (py_range2 1 (timesteps + 1)) (arr_S a) (arr_I a) (arr_R a)))))))))"

subsection \<open>\<^verbatim>\<open>simulate_intervention\<close>\<close>

text \<open>
  The body of the loop at lines 103 to 112: the transmission rate of step \<open>t\<close> is
  \<^verbatim>\<open>beta_before\<close> while \<^verbatim>\<open>t < intervention_time\<close> and \<^verbatim>\<open>beta_after\<close> from
  then on.
\<close>

definition intervention_body ::
    "real \<Rightarrow> real \<Rightarrow> real \<Rightarrow> int \<Rightarrow> real \<Rightarrow> nat \<Rightarrow> arrays \<Rightarrow> py_error + arrays" where
  "intervention_body N beta_before beta_after intervention_time gamma t a =
     (let current_beta = (if int t < intervention_time then beta_before else beta_after) in
      bind_err (getitem (arr_S a) t) (\<lambda>s0.
      bind_err (getitem (arr_I a) t) (\<lambda>i0.
      let new_infections = fdiv (fmul (fmul (Some current_beta) s0) i0) N in
      bind_err (getitem (arr_I a) t) (\<lambda>i1.
      let new_recoveries = fmul (Some gamma) i1 in
      bind_err (getitem (arr_S a) t) (\<lambda>s1.
      bind_err (setitem (arr_S a) (t + 1) (fsub s1 new_infections)) (\<lambda>S'.
      bind_err (getitem (arr_I a) t) (\<lambda>i2.
      bind_err (setitem (arr_I a) (t + 1) (fsub (fadd i2 new_infections) new_recoveries)) (\<lambda>I'.
      bind_err (getitem (arr_R a) t) (\<lambda>r0.
      bind_err (setitem (arr_R a) (t + 1) (fadd r0 new_recoveries)) (\<lambda>R'.
      Inr \<lparr>arr_S = S', arr_I = I', arr_R = R'\<rparr>))))))))))"

definition simulate_intervention ::
    "real \<Rightarrow> real \<Rightarrow> real \<Rightarrow> real \<Rightarrow> real \<Rightarrow> int \<Rightarrow> real \<Rightarrow> int \<Rightarrow> py_error + dataframe" where
  "simulate_intervention N I0 R0 beta_before beta_after intervention_time gamma timesteps =
     (let S0 = N - I0 - R0 in
      bind_err (np_zeros timesteps) (\<lambda>S.
      bind_err (np_zeros timesteps) (\<lambda>I.
      bind_err (np_zeros timesteps) (\<lambda>R.
      bind_err (setitem S 0 (Some S0)) (\<lambda>S.
      bind_err (setitem I 0 (Some I0)) (\<lambda>I.
      bind_err (setitem R 0 (Some R0)) (\<lambda>R.
      bind_err (for_range (intervention_body N beta_before beta_after intervention_time gamma)
                  (py_range (timesteps - 1)) \<lparr>arr_S = S, arr_I = I, arr_R = R\<rparr>) (\<lambda>a.
      pd_DataFrame (py_range2 1 (timesteps + 1)) (arr_S a) (arr_I a) (arr_R a)))))))))"

subsection \<open>The recurrence the loops compute\<close>

text \<open>
  The definitions of this subsection are not in the source: they describe what the loops
  compute, and the lemmas of the next section prove that they do. \<open>euler_step\<close> is one
  forward-Euler step on a triple of values, and \<open>traj\<close> the sequence of triples it
  generates from an initial one under a schedule \<open>b\<close> of transmission rates (\<open>b t\<close> is
  the rate of step \<open>t\<close>). \<open>put_step\<close> is the effect of one loop body on arrays that are
  long enough, \<open>sized\<close> says that the three arrays have a given length, \<open>frame_of\<close> is the
  data frame holding the first \<^verbatim>\<open>timesteps\<close> triples of a sequence, and \<open>beta_at\<close> is
  the schedule of \<^verbatim>\<open>simulate_intervention\<close>.
\<close>

fun euler_step :: "real \<Rightarrow> real \<Rightarrow> real \<Rightarrow> fval \<times> fval \<times> fval \<Rightarrow> fval \<times> fval \<times> fval" where
  "euler_step N beta gamma (s, i, r) =
     (fsub s (fdiv (fmul (fmul (Some beta) s) i) N),
      fsub (fadd i (fdiv (fmul (fmul (Some beta) s) i) N)) (fmul (Some gamma) i),
      fadd r (fmul (Some gamma) i))"

primrec traj ::
    "real \<Rightarrow> (nat \<Rightarrow> real) \<Rightarrow> real \<Rightarrow> fval \<times> fval \<times> fval \<Rightarrow> nat \<Rightarrow> fval \<times> fval \<times> fval" where
  "traj N b gamma x 0 = x"
| "traj N b gamma x (Suc k) = euler_step N (b k) gamma (traj N b gamma x k)"

definition triple_at :: "arrays \<Rightarrow> nat \<Rightarrow> fval \<times> fval \<times> fval" where
  "triple_at a k = (arr_S a ! k, arr_I a ! k, arr_R a ! k)"

definition put_step :: "real \<Rightarrow> real \<Rightarrow> real \<Rightarrow> nat \<Rightarrow> arrays \<Rightarrow> arrays" where
  "put_step N beta gamma t a =
     (case euler_step N beta gamma (triple_at a t) of
        (s', i', r') \<Rightarrow>
          \<lparr>arr_S = (arr_S a)[Suc t := s'], arr_I = (arr_I a)[Suc t := i'],
           arr_R = (arr_R a)[Suc t := r']\<rparr>)"

definition sized :: "nat \<Rightarrow> arrays \<Rightarrow> bool" where
  "sized n a = (length (arr_S a) = n \<and> length (arr_I a) = n \<and> length (arr_R a) = n)"

definition frame_of :: "(nat \<Rightarrow> fval \<times> fval \<times> fval) \<Rightarrow> int \<Rightarrow> dataframe" where
  "frame_of f timesteps =
     \<lparr>time = [1..timesteps],
      susceptible = map (\<lambda>k. fst (f k)) [0..<nat timesteps],
      infectious = map (\<lambda>k. fst (snd (f k))) [0..<nat timesteps],
      recovered = map (\<lambda>k. snd (snd (f k))) [0..<nat timesteps]\<rparr>"

definition beta_at :: "real \<Rightarrow> real \<Rightarrow> int \<Rightarrow> nat \<Rightarrow> real" where
  "beta_at beta_before beta_after intervention_time t =
     (if int t < intervention_time then beta_before else beta_after)"

subsection \<open>Reading a returned series\<close>

text \<open>
  How the properties below read a result. \<open>row_at\<close> is record \<open>k\<close> (counted from 0) of
  the series a call returned: its time label and its three compartment values. There is
  none when the call raised or the series is shorter.
\<close>

definition row_at :: "py_error + dataframe \<Rightarrow> nat \<Rightarrow> (int \<times> fval \<times> fval \<times> fval) option" where
  "row_at res k =
     (case res of
        Inl e \<Rightarrow> None
      | Inr d \<Rightarrow>
          if k < length (time d) \<and> k < length (susceptible d) \<and> k < length (infectious d)
             \<and> k < length (recovered d)
          then Some (time d ! k, susceptible d ! k, infectious d ! k, recovered d ! k)
          else None)"

text \<open>
  \<open>row_within M\<close> says that a record exists and holds three finite values of magnitude
  at most \<open>M\<close>, and \<open>sum_near tol N\<close> that it exists, its values are finite and their sum,
  as a real number, is within \<open>tol\<close> of \<open>N\<close>.
\<close>

definition row_within :: "real \<Rightarrow> (int \<times> fval \<times> fval \<times> fval) option \<Rightarrow> bool" where
  "row_within M row =
     (case row of
        Some (l, Some s, Some i, Some r) \<Rightarrow> \<bar>s\<bar> \<le> M \<and> \<bar>i\<bar> \<le> M \<and> \<bar>r\<bar> \<le> M
      | _ \<Rightarrow> False)"

definition sum_near :: "real \<Rightarrow> real \<Rightarrow> (int \<times> fval \<times> fval \<times> fval) option \<Rightarrow> bool" where
  "sum_near tol N row =
     (case row of
        Some (l, Some s, Some i, Some r) \<Rightarrow> \<bar>s + i + r - N\<bar> \<le> tol
      | _ \<Rightarrow> False)"

text \<open>
  \<open>decays_by f x y\<close>: both values are finite and \<open>y\<close> is \<open>x\<close> times \<open>f\<close> up to one unit in
  the last place of \<open>x\<close>.
\<close>

definition decays_by :: "real \<Rightarrow> fval \<Rightarrow> fval \<Rightarrow> bool" where
  "decays_by f x y =
     (case (x, y) of
        (Some a, Some b) \<Rightarrow> \<bar>b - a * f\<bar> \<le> \<bar>a\<bar> / 2 ^ 52
      | _ \<Rightarrow> False)"

subsection \<open>The recurrence in exact arithmetic\<close>

text \<open>
  The update of lines 45 to 50 (and 107 to 112) with no rounding: the operations of the
  loop body on real numbers. This is the recurrence that the loops follow up to the
  rounding of each operation; it is the subject of the statements below that hold in
  exact arithmetic only.
\<close>

fun exact_step :: "real \<Rightarrow> real \<Rightarrow> real \<Rightarrow> real \<times> real \<times> real \<Rightarrow> real \<times> real \<times> real" where
  "exact_step N beta gamma (s, i, r) =
     (s - beta * s * i / N, i + beta * s * i / N - gamma * i, r + gamma * i)"

primrec exact_traj ::
    "real \<Rightarrow> (nat \<Rightarrow> real) \<Rightarrow> real \<Rightarrow> real \<times> real \<times> real \<Rightarrow> nat \<Rightarrow> real \<times> real \<times> real" where
  "exact_traj N b gamma x 0 = x"
| "exact_traj N b gamma x (Suc k) = exact_step N (b k) gamma (exact_traj N b gamma x k)"

section \<open>What the loops compute\<close>

lemma bind_err_Inr [simp]: "bind_err (Inr x) f = f x"
  by (simp add: bind_err_def)

lemma bind_err_Inl [simp]: "bind_err (Inl e) f = Inl e"
  by (simp add: bind_err_def)

lemma for_range_append:
  "for_range f (xs @ ys) s = bind_err (for_range f xs s) (for_range f ys)"
  by (induction xs arbitrary: s) (auto split: sum.splits)

lemma sir_body_put:
  assumes "sized n a" and "Suc t < n"
  shows "sir_body N beta gamma t a = Inr (put_step N beta gamma t a)"
  using assms
  by (simp add: sir_body_def put_step_def sized_def triple_at_def getitem_def setitem_def Let_def)

lemma intervention_body_put:
  assumes "sized n a" and "Suc t < n"
  shows "intervention_body N bb ba it gamma t a = Inr (put_step N (beta_at bb ba it t) gamma t a)"
  using assms
  by (simp add: intervention_body_def put_step_def sized_def triple_at_def getitem_def
      setitem_def Let_def beta_at_def)

lemma sized_put_step: "sized n a \<Longrightarrow> sized n (put_step N beta gamma t a)"
  by (simp add: put_step_def sized_def split: prod.splits)

lemma triple_at_put_step:
  assumes "sized n a" and "Suc t < n"
  shows "triple_at (put_step N beta gamma t a) k =
           (if k = Suc t then euler_step N beta gamma (triple_at a t) else triple_at a k)"
  using assms
  by (auto simp: put_step_def sized_def triple_at_def split: prod.splits)

lemma loop_traj:
  assumes body: "\<And>t a. sized n a \<Longrightarrow> Suc t < n \<Longrightarrow> f t a = Inr (put_step N (b t) gamma t a)"
    and a0: "sized n a0" "triple_at a0 0 = x"
    and m: "m < n"
  shows "\<exists>a. for_range f [0..<m] a0 = Inr a \<and> sized n a \<and>
              (\<forall>k\<le>m. triple_at a k = traj N b gamma x k)"
  using m
proof (induction m)
  case 0
  then show ?case using a0 by simp
next
  case (Suc m)
  then obtain a where a: "for_range f [0..<m] a0 = Inr a" "sized n a"
      "\<forall>k\<le>m. triple_at a k = traj N b gamma x k"
    by auto
  let ?a' = "put_step N (b m) gamma m a"
  have step: "f m a = Inr ?a'"
    using body a(2) Suc.prems by simp
  have run: "for_range f [0..<Suc m] a0 = Inr ?a'"
    by (simp add: for_range_append a(1) step)
  have vals: "triple_at ?a' k = traj N b gamma x k" if "k \<le> Suc m" for k
    using that a(3) triple_at_put_step [OF a(2) Suc.prems, of N "b m" gamma k]
    by (cases "k = Suc m") auto
  show ?case
    using run sized_put_step [OF a(2)] vals by blast
qed

lemma frame_lists:
  assumes "sized n a" and "\<forall>k<n. triple_at a k = f k"
  shows "arr_S a = map (\<lambda>k. fst (f k)) [0..<n]"
    and "arr_I a = map (\<lambda>k. fst (snd (f k))) [0..<n]"
    and "arr_R a = map (\<lambda>k. snd (snd (f k))) [0..<n]"
proof -
  have eq: "f k = (arr_S a ! k, arr_I a ! k, arr_R a ! k)" if "k < n" for k
    using assms(2) that by (simp add: triple_at_def)
  show "arr_S a = map (\<lambda>k. fst (f k)) [0..<n]"
    using assms(1) by (simp add: sized_def list_eq_iff_nth_eq eq)
  show "arr_I a = map (\<lambda>k. fst (snd (f k))) [0..<n]"
    using assms(1) by (simp add: sized_def list_eq_iff_nth_eq eq)
  show "arr_R a = map (\<lambda>k. snd (snd (f k))) [0..<n]"
    using assms(1) by (simp add: sized_def list_eq_iff_nth_eq eq)
qed

lemma length_time: "length (py_range2 1 (timesteps + 1)) = nat timesteps"
  by (simp add: py_range2_def)

lemma run_traj:
  assumes body: "\<And>t a. sized (nat timesteps) a \<Longrightarrow> Suc t < nat timesteps \<Longrightarrow>
                   f t a = Inr (put_step N (b t) gamma t a)"
    and ts: "1 \<le> timesteps"
  shows "bind_err (for_range f (py_range (timesteps - 1))
            \<lparr>arr_S = (replicate (nat timesteps) (Some 0))[0 := Some s],
             arr_I = (replicate (nat timesteps) (Some 0))[0 := Some i],
             arr_R = (replicate (nat timesteps) (Some 0))[0 := Some r]\<rparr>)
          (\<lambda>a. pd_DataFrame (py_range2 1 (timesteps + 1)) (arr_S a) (arr_I a) (arr_R a))
         = Inr (frame_of (traj N b gamma (Some s, Some i, Some r)) timesteps)"
proof -
  let ?n = "nat timesteps"
  let ?a0 = "\<lparr>arr_S = (replicate ?n (Some 0))[0 := Some s],
             arr_I = (replicate ?n (Some 0))[0 := Some i],
             arr_R = (replicate ?n (Some 0))[0 := Some r]\<rparr>"
  let ?f = "traj N b gamma (Some s, Some i, Some r)"
  have n: "0 < ?n" using ts by simp
  have sz: "sized ?n ?a0" by (simp add: sized_def)
  have t0: "triple_at ?a0 0 = (Some s, Some i, Some r)"
    using n by (simp add: triple_at_def)
  have m: "?n - 1 < ?n" using n by simp
  obtain a where a: "for_range f [0..<?n - 1] ?a0 = Inr a" "sized ?n a"
      "\<forall>k\<le>?n - 1. triple_at a k = ?f k"
    using loop_traj [of ?n f N b gamma ?a0 "(Some s, Some i, Some r)" "?n - 1", OF body sz t0 m]
    by blast
  have "nat (timesteps - 1) = ?n - 1"
    using ts by arith
  then have rng: "py_range (timesteps - 1) = [0..<?n - 1]"
    by (simp add: py_range_def)
  have all: "\<forall>k<?n. triple_at a k = ?f k"
    using a(3) by auto
  have "pd_DataFrame (py_range2 1 (timesteps + 1)) (arr_S a) (arr_I a) (arr_R a)
          = Inr (frame_of ?f timesteps)"
    using a(2) frame_lists [OF a(2) all]
    by (simp add: pd_DataFrame_def length_time sized_def frame_of_def py_range2_def)
  then show ?thesis
    by (simp only: rng a(1) bind_err_Inr)
qed

lemma sir_model_traj:
  assumes "1 \<le> timesteps"
  shows "sir_model N I0 R0 beta gamma timesteps =
           Inr (frame_of (traj N (\<lambda>t. beta) gamma (Some (N - I0 - R0), Some I0, Some R0)) timesteps)"
proof -
  have pos: "0 < nat timesteps" using assms by simp
  show ?thesis
    using assms pos run_traj [of timesteps "sir_body N beta gamma" N "\<lambda>t. beta" gamma, OF sir_body_put assms]
    by (simp add: sir_model_def np_zeros_def setitem_def Let_def)
qed

lemma simulate_intervention_traj:
  assumes "1 \<le> timesteps"
  shows "simulate_intervention N I0 R0 bb ba it gamma timesteps =
           Inr (frame_of (traj N (beta_at bb ba it) gamma (Some (N - I0 - R0), Some I0, Some R0))
                  timesteps)"
proof -
  have pos: "0 < nat timesteps" using assms by simp
  show ?thesis
    using assms pos
      run_traj [of timesteps "intervention_body N bb ba it gamma" N "beta_at bb ba it" gamma,
        OF intervention_body_put assms]
    by (simp add: simulate_intervention_def np_zeros_def setitem_def Let_def)
qed

lemma sir_model_fails:
  assumes "timesteps < 1"
  shows "sir_model N I0 R0 beta gamma timesteps =
           Inl (if timesteps < 0 then ValueError else IndexError)"
  using assms by (simp add: sir_model_def np_zeros_def setitem_def Let_def)

lemma simulate_intervention_fails:
  assumes "timesteps < 1"
  shows "simulate_intervention N I0 R0 bb ba it gamma timesteps =
           Inl (if timesteps < 0 then ValueError else IndexError)"
  using assms by (simp add: simulate_intervention_def np_zeros_def setitem_def Let_def)

lemma upto_as_map: "[1..int n] = map (\<lambda>k. int k + 1) [0..<n]"
proof (induction n)
  case 0
  then show ?case by simp
next
  case (Suc n)
  have "[1..int (Suc n)] = [1..int n] @ [int n + 1]"
    using upto_rec2 [of 1 "int (Suc n)"] by (simp add: add.commute)
  then show ?case using Suc by simp
qed

lemma row_at_frame_of:
  assumes "k < nat timesteps"
  shows "row_at (Inr (frame_of f timesteps)) k =
           Some (int k + 1, fst (f k), fst (snd (f k)), snd (snd (f k)))"
proof -
  have "0 \<le> timesteps"
    using assms by simp
  then have "[1..timesteps] = map (\<lambda>k. int k + 1) [0..<nat timesteps]"
    using upto_as_map [of "nat timesteps"] by simp
  then show ?thesis
    using assms by (simp add: row_at_def frame_of_def)
qed

lemma traj_cong:
  assumes "\<forall>t<k. b1 t = b2 t"
  shows "traj N b1 gamma x k = traj N b2 gamma x k"
  using assms by (induction k) simp_all

text \<open>The shape of a returned series.\<close>

lemma frame_of_shape:
  assumes "0 \<le> timesteps"
  shows "time (frame_of f timesteps) = map (\<lambda>k. int k + 1) [0..<nat timesteps]"
    and "length (susceptible (frame_of f timesteps)) = nat timesteps"
    and "length (infectious (frame_of f timesteps)) = nat timesteps"
    and "length (recovered (frame_of f timesteps)) = nat timesteps"
  using assms upto_as_map [of "nat timesteps"] by (simp_all add: frame_of_def)

section \<open>Rounding to a float\<close>

text \<open>Powers of two.\<close>

lemma pow2_pos [simp]: "0 < pow2 k"
  by (simp add: pow2_def)

lemma pow2_powi: "pow2 k = 2 powi k"
  by (simp add: pow2_def power_int_def field_simps)

lemma pow2_add: "pow2 (a + b) = pow2 a * pow2 b"
  by (simp add: pow2_powi power_int_add)

lemma pow2_nat: "pow2 (int n) = 2 ^ n"
  by (simp add: pow2_def)

lemma pow2_mono: "a \<le> b \<Longrightarrow> pow2 a \<le> pow2 b"
  by (simp add: pow2_powi power_int_increasing)

lemma pow2_strict_mono: "a < b \<Longrightarrow> pow2 a < pow2 b"
  by (simp add: pow2_powi power_int_strict_increasing)

lemma pow2_less_imp: "pow2 a < pow2 b \<Longrightarrow> a < b"
  using pow2_mono [of b a] by (cases "a < b") auto

lemma pow2_nonneg [simp]: "0 \<le> pow2 k"
  using pow2_pos [of k] by (simp only: less_imp_le)

lemma pow2_neq0 [simp]: "pow2 k \<noteq> 0"
  using pow2_pos [of k] by (metis less_irrefl)

lemma abs_pow2 [simp]: "\<bar>pow2 k\<bar> = pow2 k"
  by simp

lemma pow2_52: "pow2 e = 2 ^ 52 * pow2 (e - 52)"
  using pow2_add [of 52 "e - 52"] pow2_nat [of 52] by simp

lemma pow2_53: "pow2 (e + 1) = 2 ^ 53 * pow2 (e - 52)"
  using pow2_add [of 53 "e - 52"] pow2_nat [of 53] by (simp add: add.commute)

lemma pow2_grid:
  assumes "e \<le> e'"
  shows "pow2 (e' - 52) = of_int (2 ^ nat (e' - e)) * pow2 (e - 52)"
  using assms pow2_add [of "int (nat (e' - e))" "e - 52"] pow2_nat [of "nat (e' - e)"] by simp

text \<open>\<open>expo x\<close> is the binary exponent of a positive \<open>x\<close>.\<close>

lemma bitlen_pos: "0 < n \<Longrightarrow> 0 < bitlen n"
  by (subst bitlen.simps) simp

lemma bitlen_bounds: "0 < n \<Longrightarrow> (2::nat) ^ (bitlen n - 1) \<le> n \<and> n < 2 ^ bitlen n"
proof (induction n rule: bitlen.induct)
  case (1 n)
  show ?case
  proof (cases "n div 2 = 0")
    case True
    with "1.prems" have "n = 1" by (auto simp: div_eq_0_iff)
    then show ?thesis by (simp add: bitlen.simps)
  next
    case False
    then have pos: "0 < n div 2" by simp
    define m where "m = bitlen (n div 2)"
    have ih: "(2::nat) ^ (m - 1) \<le> n div 2" "n div 2 < 2 ^ m"
      using "1.IH" "1.prems" pos by (simp_all add: m_def)
    have b: "bitlen n = Suc m"
      using "1.prems" by (subst bitlen.simps) (simp add: m_def)
    have mpos: "0 < m"
      using pos bitlen_pos by (simp add: m_def)
    then have p: "(2::nat) ^ m = 2 * 2 ^ (m - 1)"
      by (cases m) simp_all
    have "2 * (n div 2) \<le> n" by simp
    with ih(1) p have lo: "(2::nat) ^ m \<le> n" by linarith
    have "n < 2 * (n div 2) + 2" by presburger
    with ih(2) have hi: "n < 2 * 2 ^ m" by linarith
    show ?thesis
      unfolding b using lo hi by simp
  qed
qed

lemma bitlen_bounds_real:
  assumes "0 < n"
  shows "(2::real) ^ (bitlen n - 1) \<le> real n" and "real n + 1 \<le> 2 ^ bitlen n"
proof -
  have "real ((2::nat) ^ (bitlen n - 1)) \<le> real n"
    using bitlen_bounds [OF assms] by (simp only: of_nat_le_iff)
  then show "(2::real) ^ (bitlen n - 1) \<le> real n"
    by simp
  have "n + 1 \<le> 2 ^ bitlen n"
    using bitlen_bounds [OF assms] by simp
  then have "real (n + 1) \<le> real ((2::nat) ^ bitlen n)"
    by (simp only: of_nat_le_iff)
  then show "real n + 1 \<le> 2 ^ bitlen n"
    by simp
qed

lemma expo_bounds_conj:
  assumes "0 < x"
  shows "pow2 (expo x) \<le> x \<and> x < pow2 (expo x + 1)"
proof (cases "1 \<le> x")
  case True
  define n where "n = nat \<lfloor>x\<rfloor>"
  have npos: "0 < n" using True by (simp add: n_def)
  have e: "expo x = int (bitlen n - 1)" "expo x + 1 = int (bitlen n)"
    using True bitlen_pos [OF npos] by (simp_all add: expo_def n_def)
  have p: "pow2 (expo x) = 2 ^ (bitlen n - 1)" "pow2 (expo x + 1) = 2 ^ bitlen n"
    using pow2_nat [of "bitlen n - 1"] pow2_nat [of "bitlen n"] e by simp_all
  have "real n \<le> x" "x < real n + 1"
    using True by (simp_all add: n_def)
  with bitlen_bounds_real [OF npos]
  show ?thesis
    unfolding p by linarith
next
  case False
  define n where "n = nat (\<lceil>1 / x\<rceil> - 1)"
  have x1: "1 < 1 / x" using False assms by simp
  then have c2: "2 \<le> \<lceil>1 / x\<rceil>" by linarith
  have npos: "0 < n" using c2 by (simp add: n_def)
  have bl: "0 < bitlen n" by (rule bitlen_pos [OF npos])
  have e: "expo x = - int (bitlen n)"
    using False by (simp add: expo_def n_def)
  have n: "real n < 1 / x" "1 / x \<le> real n + 1"
    using c2 by (simp_all add: n_def) linarith+
  have lo: "(2::real) ^ (bitlen n - 1) < 1 / x" and hi: "1 / x \<le> 2 ^ bitlen n"
    using n bitlen_bounds_real [OF npos] by linarith+
  have "1 / 2 ^ bitlen n \<le> x"
    using hi assms by (simp add: field_simps)
  then have low: "pow2 (expo x) \<le> x"
    using bl by (simp add: e pow2_def)
  have "x < 1 / 2 ^ (bitlen n - 1)"
    using lo assms by (simp add: field_simps)
  moreover have "pow2 (expo x + 1) = 1 / 2 ^ (bitlen n - 1)"
  proof (cases "bitlen n = 1")
    case True
    then show ?thesis by (simp add: e pow2_def)
  next
    case False
    with bl have "1 < bitlen n" by simp
    then have "nat (int (bitlen n) - 1) = bitlen n - 1" "\<not> 0 \<le> 1 - int (bitlen n)"
      by simp_all
    then show ?thesis by (simp add: e pow2_def)
  qed
  ultimately show ?thesis using low by simp
qed

lemma expo_bounds:
  assumes "0 < x"
  shows "pow2 (expo x) \<le> x" and "x < pow2 (expo x + 1)"
  using expo_bounds_conj [OF assms] by simp_all

text \<open>\<open>round_even\<close> moves a number by at most one half and keeps its order with the integers.\<close>

lemma round_even_cases: "round_even y = \<lfloor>y\<rfloor> \<or> round_even y = \<lfloor>y\<rfloor> + 1"
  by (simp add: round_even_def tie_even_def)

lemma round_even_error: "\<bar>of_int (round_even y) - y\<bar> \<le> 1 / 2"
proof -
  have "of_int \<lfloor>y\<rfloor> \<le> y" "y < of_int \<lfloor>y\<rfloor> + 1"
    by linarith+
  then show ?thesis
    by (auto simp: round_even_def tie_even_def)
qed

lemma round_even_ge: "of_int k \<le> y \<Longrightarrow> k \<le> round_even y"
proof -
  assume "of_int k \<le> y"
  then have "k \<le> \<lfloor>y\<rfloor>" by (simp add: le_floor_iff)
  then show ?thesis
    using round_even_cases [of y] by auto
qed

lemma round_even_of_int [simp]: "round_even (of_int k) = k"
  by (simp add: round_even_def tie_even_def)

lemma round_even_le: "y \<le> of_int k \<Longrightarrow> round_even y \<le> k"
proof (cases "y = of_int k")
  case True
  then show ?thesis by simp
next
  case False
  assume "y \<le> of_int k"
  with False have "y < of_int k" by simp
  then have "\<lfloor>y\<rfloor> < k" by (simp add: floor_less_iff)
  then show ?thesis
    using round_even_cases [of y] by auto
qed

text \<open>The shape of a rounded value: a significand of at most 53 bits times \<open>2^(e-52)\<close>.\<close>

lemma round64_SomeD:
  assumes "round64 x = Some y" and "x \<noteq> 0"
  shows "y = of_int (round_even (x / pow2 (max (expo \<bar>x\<bar>) (- 1022) - 52))) *
               pow2 (max (expo \<bar>x\<bar>) (- 1022) - 52)"
    and "\<bar>y\<bar> < 2 ^ 1024"
  using assms by (auto simp: round64_def round_to_def check_overflow_def split: if_splits)

lemma round64_zero [simp]: "round64 0 = Some 0"
  by (simp add: round64_def)

lemma significand_bounds:
  assumes "x \<noteq> 0" and "e = max (expo \<bar>x\<bar>) (- 1022)" and "m = round_even (x / pow2 (e - 52))"
  shows "\<bar>m\<bar> \<le> 2 ^ 53" and "expo \<bar>x\<bar> = e \<Longrightarrow> 2 ^ 52 \<le> \<bar>m\<bar>"
proof -
  let ?q = "pow2 (e - 52)"
  have ax: "0 < \<bar>x\<bar>" using assms(1) by simp
  have "\<bar>x\<bar> < pow2 (expo \<bar>x\<bar> + 1)" by (rule expo_bounds [OF ax])
  also have "\<dots> \<le> pow2 (e + 1)" by (rule pow2_mono) (simp add: assms(2))
  finally have "\<bar>x\<bar> < 2 ^ 53 * ?q" by (simp add: pow2_53)
  then have up: "\<bar>x / ?q\<bar> < 2 ^ 53"
    by (simp add: field_simps)
  have "x / ?q \<le> 2 ^ 53" "- (2 ^ 53) \<le> x / ?q"
    using up by linarith+
  then have "x / ?q \<le> of_int (2 ^ 53)" "of_int (- (2 ^ 53)) \<le> x / ?q"
    by simp_all
  then have "round_even (x / ?q) \<le> 2 ^ 53" "- (2 ^ 53) \<le> round_even (x / ?q)"
    by (simp_all only: round_even_le round_even_ge)
  then show "\<bar>m\<bar> \<le> 2 ^ 53" by (simp add: assms(3))
  show "2 ^ 52 \<le> \<bar>m\<bar>" if "expo \<bar>x\<bar> = e"
  proof -
    have "pow2 e \<le> \<bar>x\<bar>" using expo_bounds(1) [OF ax] that by simp
    then have "2 ^ 52 * ?q \<le> \<bar>x\<bar>" using pow2_52 [of e] by linarith
    then have lo: "2 ^ 52 \<le> \<bar>x / ?q\<bar>"
      by (simp add: field_simps)
    show ?thesis
    proof (cases "0 \<le> x")
      case True
      then have "of_int (2 ^ 52) \<le> x / ?q" using lo by simp
      then have "2 ^ 52 \<le> m" unfolding assms(3) by (rule round_even_ge)
      then show ?thesis by simp
    next
      case False
      then have "x / ?q \<le> of_int (- (2 ^ 52))" using lo by (simp add: field_simps)
      then have "m \<le> - (2 ^ 52)" unfolding assms(3) by (rule round_even_le)
      then show ?thesis by simp
    qed
  qed
qed

text \<open>Rounding moves a number by at most half a unit in the last place, and keeps its sign.\<close>

lemma round64_error:
  assumes "round64 x = Some y"
  shows "\<bar>y - x\<bar> \<le> \<bar>y\<bar> / 2 ^ 53 + pow2 (- 1075)"
proof (cases "x = 0")
  case True
  with assms show ?thesis by simp
next
  case False
  define e where "e = max (expo \<bar>x\<bar>) (- 1022)"
  define q where "q = pow2 (e - 52)"
  define m where "m = round_even (x / q)"
  have y: "y = of_int m * q"
    using round64_SomeD(1) [OF assms False] by (simp add: e_def q_def m_def)
  have q: "0 < q" by (simp add: q_def)
  have "\<bar>of_int m - x / q\<bar> \<le> 1 / 2"
    unfolding m_def by (rule round_even_error)
  then have "\<bar>of_int m - x / q\<bar> * q \<le> 1 / 2 * q"
    using q by (simp only: mult_le_cancel_right_pos)
  moreover have "y - x = (of_int m - x / q) * q"
    using q by (simp add: y field_simps)
  then have "\<bar>of_int m - x / q\<bar> * q = \<bar>y - x\<bar>"
    using q by (simp add: abs_mult)
  ultimately have err: "\<bar>y - x\<bar> \<le> q / 2" by simp
  show ?thesis
  proof (cases "expo \<bar>x\<bar> = e")
    case True
    have "2 ^ 52 \<le> \<bar>m\<bar>"
      using significand_bounds(2) [OF False e_def] True by (simp add: m_def q_def)
    then have "(2::real) ^ 52 \<le> \<bar>of_int m\<bar>"
      by (metis of_int_abs of_int_le_iff of_int_numeral of_int_power)
    then have "2 ^ 52 * q \<le> \<bar>y\<bar>"
      using q by (simp add: y abs_mult)
    then have "q / 2 \<le> \<bar>y\<bar> / 2 ^ 53" by simp
    moreover have "0 \<le> pow2 (- 1075)" by simp
    ultimately show ?thesis using err by linarith
  next
    case False
    then have "e = - 1022" by (auto simp: e_def max_def split: if_splits)
    then have "q = pow2 (- 1075) * 2"
      using pow2_add [of "- 1075" 1] by (simp add: q_def pow2_def [of 1])
    then have "q / 2 = pow2 (- 1075)" by simp
    moreover have "0 \<le> \<bar>y\<bar> / 2 ^ 53" by simp
    ultimately show ?thesis using err by linarith
  qed
qed

lemma round64_nonneg:
  assumes "round64 x = Some y" and "0 \<le> x"
  shows "0 \<le> y"
proof (cases "x = 0")
  case True
  with assms show ?thesis by simp
next
  case False
  let ?q = "pow2 (max (expo \<bar>x\<bar>) (- 1022) - 52)"
  have "of_int 0 \<le> x / ?q" using assms(2) by simp
  then have "0 \<le> round_even (x / ?q)" by (rule round_even_ge)
  then show ?thesis
    using round64_SomeD(1) [OF assms(1) False] by simp
qed

text \<open>
  A float \<open>r\<close> is a number that rounding leaves unchanged, \<open>round64 r = Some r\<close>. A float of
  magnitude at least \<open>2^e\<close> is a multiple of \<open>2^(e-52)\<close>, and every float is a multiple of
  \<open>2^(-1074)\<close>.
\<close>

lemma float_on_grid:
  assumes r: "round64 r = Some r" and e: "- 1022 \<le> e" "e = - 1022 \<or> pow2 e \<le> \<bar>r\<bar>"
  shows "\<exists>k::int. r = of_int k * pow2 (e - 52)"
proof (cases "r = 0")
  case True
  then have "r = of_int 0 * pow2 (e - 52)" by simp
  then show ?thesis by blast
next
  case False
  define e' where "e' = max (expo \<bar>r\<bar>) (- 1022)"
  define m where "m = round_even (r / pow2 (e' - 52))"
  have rm: "r = of_int m * pow2 (e' - 52)"
    using round64_SomeD(1) [OF r False] by (simp add: e'_def m_def)
  have "e \<le> e'"
  proof (cases "e = - 1022")
    case True
    then show ?thesis by (simp add: e'_def)
  next
    case False
    with e(2) have "pow2 e \<le> \<bar>r\<bar>" by simp
    also have "\<bar>r\<bar> < pow2 (expo \<bar>r\<bar> + 1)"
      using \<open>r \<noteq> 0\<close> by (intro expo_bounds) simp
    finally have "e < expo \<bar>r\<bar> + 1" by (rule pow2_less_imp)
    then show ?thesis by (simp add: e'_def)
  qed
  then have "r = of_int (m * 2 ^ nat (e' - e)) * pow2 (e - 52)"
    using rm pow2_grid [of e e'] by simp
  then show ?thesis by blast
qed

lemma round64_multiple:
  assumes "x = of_int k * pow2 (max (expo \<bar>x\<bar>) (- 1022) - 52)" and "\<bar>x\<bar> < 2 ^ 1024"
  shows "round64 x = Some x"
proof (cases "x = 0")
  case True
  then show ?thesis by simp
next
  case False
  let ?q = "pow2 (max (expo \<bar>x\<bar>) (- 1022) - 52)"
  have "x / ?q = of_int k"
    using assms(1) by (metis nonzero_mult_div_cancel_right pow2_neq0)
  then have "of_int (round_even (x / ?q)) * ?q = x"
    using assms(1) by simp
  then show ?thesis
    using False assms(2) by (simp add: round64_def round_to_def check_overflow_def)
qed

text \<open>A rounded value is a float.\<close>

lemma round64_idem:
  assumes "round64 x = Some y"
  shows "round64 y = Some y"
proof (cases "x = 0 \<or> y = 0")
  case True
  with assms show ?thesis by auto
next
  case False
  then have x: "x \<noteq> 0" and y: "y \<noteq> 0" by simp_all
  define e where "e = max (expo \<bar>x\<bar>) (- 1022)"
  define q where "q = pow2 (e - 52)"
  define m where "m = round_even (x / q)"
  define e' where "e' = max (expo \<bar>y\<bar>) (- 1022)"
  have ym: "y = of_int m * q" and fin: "\<bar>y\<bar> < 2 ^ 1024"
    using round64_SomeD [OF assms x] by (simp_all add: e_def q_def m_def)
  have q: "0 < q" by (simp add: q_def)
  have m53: "\<bar>m\<bar> \<le> 2 ^ 53"
    using significand_bounds(1) [OF x e_def] by (simp add: m_def q_def)
  have ay: "\<bar>y\<bar> = of_int \<bar>m\<bar> * q"
    using q by (simp add: ym abs_mult)
  have "\<exists>k::int. y = of_int k * pow2 (e' - 52)"
  proof (cases "e' \<le> e")
    case True
    then have "y = of_int (m * 2 ^ nat (e - e')) * pow2 (e' - 52)"
      using ym pow2_grid [of e' e] by (simp add: q_def)
    then show ?thesis by blast
  next
    case False
    then have e'x: "e' = expo \<bar>y\<bar>"
      by (auto simp: e'_def e_def max_def split: if_splits)
    have "pow2 e' \<le> \<bar>y\<bar>"
      unfolding e'x using y by (intro expo_bounds) simp
    moreover have "\<bar>y\<bar> \<le> pow2 (e + 1)"
    proof -
      have "real_of_int \<bar>m\<bar> \<le> real_of_int (2 ^ 53)"
        using m53 by (simp only: of_int_le_iff)
      then have "real_of_int \<bar>m\<bar> * q \<le> 2 ^ 53 * q"
        using q by simp
      then show ?thesis by (simp add: ay pow2_53 q_def)
    qed
    ultimately have "pow2 e' \<le> pow2 (e + 1)" by simp
    then have "e' \<le> e + 1"
      using pow2_strict_mono [of "e + 1" e'] by (cases "e' \<le> e + 1") auto
    with False have "e' = e + 1" by simp
    with \<open>pow2 e' \<le> \<bar>y\<bar>\<close> \<open>\<bar>y\<bar> \<le> pow2 (e + 1)\<close> have "\<bar>y\<bar> = pow2 e'" by simp
    then have "\<bar>y\<bar> = of_int (2 ^ 52) * pow2 (e' - 52)"
      using pow2_52 [of e'] by simp
    then have "y = of_int (2 ^ 52) * pow2 (e' - 52) \<or> y = of_int (- (2 ^ 52)) * pow2 (e' - 52)"
      by (cases "0 \<le> y") simp_all
    then show ?thesis by blast
  qed
  then obtain k :: int where "y = of_int k * pow2 (e' - 52)" by blast
  then show ?thesis
    using fin by (intro round64_multiple) (simp_all add: e'_def)
qed

text \<open>Rounding a number that is at least a float \<open>r\<close> gives at least \<open>r\<close>.\<close>

lemma round64_ge_float:
  assumes r: "round64 r = Some r" and rx: "r \<le> x" and xy: "round64 x = Some y"
  shows "r \<le> y"
proof (cases "x = 0")
  case True
  with xy rx show ?thesis by simp
next
  case False
  define e where "e = max (expo \<bar>x\<bar>) (- 1022)"
  define q where "q = pow2 (e - 52)"
  define m where "m = round_even (x / q)"
  have ym: "y = of_int m * q"
    using round64_SomeD(1) [OF xy False] by (simp add: e_def q_def m_def)
  have q: "0 < q" by (simp add: q_def)
  have e1022: "- 1022 \<le> e" by (simp add: e_def)
  have ax: "0 < \<bar>x\<bar>" using False by simp
  have on_grid: "r \<le> y" if "\<exists>k::int. r = of_int k * q"
  proof -
    from that obtain k :: int where k: "r = of_int k * q" by blast
    then have "of_int k * q \<le> x" using rx by simp
    then have "of_int k \<le> x / q" using q by (simp add: field_simps)
    then have "k \<le> m" unfolding m_def by (rule round_even_ge)
    then have "real_of_int k \<le> real_of_int m" by simp
    then show ?thesis using q by (simp add: k ym)
  qed
  show ?thesis
  proof (cases "e = - 1022 \<or> pow2 e \<le> \<bar>r\<bar>")
    case True
    then show ?thesis
      using float_on_grid [OF r e1022] on_grid by (simp add: q_def)
  next
    case False
    then have ex: "e = expo \<bar>x\<bar>" and small: "\<bar>r\<bar> < pow2 e"
      by (auto simp: e_def max_def split: if_splits)
    have big: "pow2 e \<le> \<bar>x\<bar>"
      unfolding ex by (rule expo_bounds [OF ax])
    have "0 < x"
    proof (rule ccontr)
      assume "\<not> 0 < x"
      then have "\<bar>x\<bar> \<le> \<bar>r\<bar>" using rx by simp
      with big small show False by simp
    qed
    then have "2 ^ 52 * q \<le> x" using big pow2_52 [of e] by (simp add: q_def)
    then have "of_int (2 ^ 52) \<le> x / q" using q by (simp add: field_simps)
    then have "2 ^ 52 \<le> m" unfolding m_def by (rule round_even_ge)
    then have "real_of_int (2 ^ 52) \<le> real_of_int m" by (simp only: of_int_le_iff)
    then have "2 ^ 52 * q \<le> y" using q by (simp add: ym)
    then have "pow2 e \<le> y" using pow2_52 [of e] by (simp add: q_def)
    with small show ?thesis by simp
  qed
qed

text \<open>A finite result comes from finite operands.\<close>

lemma fadd_SomeD: "fadd x y = Some z \<Longrightarrow> \<exists>a b. x = Some a \<and> y = Some b \<and> round64 (a + b) = Some z"
  by (cases x; cases y) auto

lemma fsub_SomeD: "fsub x y = Some z \<Longrightarrow> \<exists>a b. x = Some a \<and> y = Some b \<and> round64 (a - b) = Some z"
  by (cases x; cases y) auto

lemma fmul_SomeD: "fmul x y = Some z \<Longrightarrow> \<exists>a b. x = Some a \<and> y = Some b \<and> round64 (a * b) = Some z"
  by (cases x; cases y) auto

text \<open>
  A finite recovered value is a float when \<^verbatim>\<open>R0\<close> is one, and adding the rounded product
  of two non-negative numbers to a float does not decrease it.
\<close>

lemma traj_recovered_float:
  assumes "round64 R0 = Some R0"
    and "traj N b gamma (s0, i0, Some R0) k = (s, i, Some r)"
  shows "round64 r = Some r"
proof (cases k)
  case 0
  with assms show ?thesis by simp
next
  case (Suc j)
  obtain s1 i1 r1 where t: "traj N b gamma (s0, i0, Some R0) j = (s1, i1, r1)"
    using prod_cases3 by blast
  with assms(2) Suc have "fadd r1 (fmul (Some gamma) i1) = Some r" by simp
  then obtain a c where "round64 (a + c) = Some r"
    using fadd_SomeD by blast
  then show ?thesis by (rule round64_idem)
qed

lemma recovered_step:
  assumes r0: "round64 r0 = Some r0" and step: "fadd (Some r0) (fmul (Some gamma) (Some i)) = Some r1"
    and pos: "0 \<le> i" "0 \<le> gamma"
  shows "r0 \<le> r1"
proof -
  from step obtain g where g: "round64 (gamma * i) = Some g" and r1: "round64 (r0 + g) = Some r1"
    by (cases "round64 (gamma * i)") auto
  have "0 \<le> gamma * i" using pos by simp
  then have "0 \<le> g" by (rule round64_nonneg [OF g])
  then have "r0 \<le> r0 + g" by simp
  then show ?thesis using r1 by (rule round64_ge_float [OF r0])
qed

text \<open>
  One step changes the sum of the three values by the errors of four roundings only. Along
  a run whose values are finite and of magnitude at most \<open>M\<close>, the sum moves by at most
  \<open>M / 2^49\<close> a step.
\<close>

lemma tiny_le:
  assumes "pow2 (- 1022) \<le> M"
  shows "pow2 (- 1075) \<le> M / 2 ^ 53"
proof -
  have "pow2 (- 1075) = pow2 (- 1022) * pow2 (- 53)"
    using pow2_add [of "- 1022" "- 53"] by simp
  also have "pow2 (- 53) = 1 / 2 ^ 53" by (simp add: pow2_def)
  finally have "pow2 (- 1075) = pow2 (- 1022) / 2 ^ 53" by simp
  then show ?thesis using assms by (simp add: divide_right_mono)
qed

lemma round64_error_M:
  assumes "round64 x = Some y" and "\<bar>y\<bar> \<le> B" and "pow2 (- 1022) \<le> M"
  shows "\<bar>y - x\<bar> \<le> B / 2 ^ 53 + M / 2 ^ 53"
proof -
  have "\<bar>y\<bar> / 2 ^ 53 \<le> B / 2 ^ 53"
    using assms(2) by (simp add: divide_right_mono)
  then show ?thesis
    using round64_error [OF assms(1)] tiny_le [OF assms(3)] by linarith
qed

lemma euler_step_drift:
  assumes step: "euler_step N beta gamma (Some s, Some i, Some r) = (Some s', Some i', Some r')"
    and M: "pow2 (- 1022) \<le> M" "\<bar>r\<bar> \<le> M" "\<bar>s'\<bar> \<le> M" "\<bar>i'\<bar> \<le> M" "\<bar>r'\<bar> \<le> M"
  shows "\<bar>(s' + i' + r') - (s + i + r)\<bar> \<le> M / 2 ^ 49"
proof -
  let ?ni = "fdiv (fmul (fmul (Some beta) (Some s)) (Some i)) N"
  let ?nr = "fmul (Some gamma) (Some i)"
  from step have S: "fsub (Some s) ?ni = Some s'"
    and I: "fsub (fadd (Some i) ?ni) ?nr = Some i'"
    and R: "fadd (Some r) ?nr = Some r'"
    by simp_all
  from S obtain ni where ni: "?ni = Some ni" and s': "round64 (s - ni) = Some s'"
    using fsub_SomeD by fastforce
  from R obtain nr where nr: "?nr = Some nr" and r': "round64 (r + nr) = Some r'"
    using fadd_SomeD by fastforce
  from I ni nr obtain a where a: "round64 (i + ni) = Some a" and i': "round64 (a - nr) = Some i'"
    by (cases "round64 (i + ni)") auto
  have Mpos: "0 \<le> M" using M(1) pow2_nonneg [of "- 1022"] by linarith
  have e1: "\<bar>s' - (s - ni)\<bar> \<le> M / 2 ^ 53 + M / 2 ^ 53"
    by (rule round64_error_M [OF s' M(3) M(1)])
  have e4: "\<bar>r' - (r + nr)\<bar> \<le> M / 2 ^ 53 + M / 2 ^ 53"
    by (rule round64_error_M [OF r' M(5) M(1)])
  have e3: "\<bar>i' - (a - nr)\<bar> \<le> M / 2 ^ 53 + M / 2 ^ 53"
    by (rule round64_error_M [OF i' M(4) M(1)])
  have small: "M / 2 ^ 53 + M / 2 ^ 53 \<le> M" using Mpos by simp
  have "\<bar>r' - (r + nr)\<bar> \<le> M" using e4 small by linarith
  then have "\<bar>nr\<bar> \<le> 3 * M" using M(2,5) by linarith
  moreover have "\<bar>i' - (a - nr)\<bar> \<le> M" using e3 small by linarith
  ultimately have "\<bar>a\<bar> \<le> 5 * M" using M(4) by linarith
  then have e2: "\<bar>a - (i + ni)\<bar> \<le> 5 * M / 2 ^ 53 + M / 2 ^ 53"
    by (rule round64_error_M [OF a _ M(1)])
  have "(s' + i' + r') - (s + i + r) =
      (s' - (s - ni)) + (a - (i + ni)) + (i' - (a - nr)) + (r' - (r + nr))"
    by simp
  then have "\<bar>(s' + i' + r') - (s + i + r)\<bar> \<le>
      \<bar>s' - (s - ni)\<bar> + \<bar>a - (i + ni)\<bar> + \<bar>i' - (a - nr)\<bar> + \<bar>r' - (r + nr)\<bar>"
    by linarith
  also have "\<dots> \<le> 12 * M / 2 ^ 53"
    using e1 e2 e3 e4 by (simp add: field_simps)
  also have "\<dots> \<le> M / 2 ^ 49"
    using Mpos by (simp add: field_simps)
  finally show ?thesis .
qed

lemma traj_drift:
  assumes M: "pow2 (- 1022) \<le> M"
    and fin: "\<forall>j\<le>k. \<exists>s i r. traj N b gamma (Some s0, Some i0, Some r0) j = (Some s, Some i, Some r)
                \<and> \<bar>s\<bar> \<le> M \<and> \<bar>i\<bar> \<le> M \<and> \<bar>r\<bar> \<le> M"
  shows "\<exists>s i r. traj N b gamma (Some s0, Some i0, Some r0) k = (Some s, Some i, Some r)
           \<and> \<bar>(s + i + r) - (s0 + i0 + r0)\<bar> \<le> real k * M / 2 ^ 49"
  using fin
proof (induction k)
  case 0
  then show ?case by simp
next
  case (Suc k)
  let ?f = "traj N b gamma (Some s0, Some i0, Some r0)"
  from Suc.prems have "\<forall>j\<le>k. \<exists>s i r. ?f j = (Some s, Some i, Some r)
      \<and> \<bar>s\<bar> \<le> M \<and> \<bar>i\<bar> \<le> M \<and> \<bar>r\<bar> \<le> M"
    by simp
  with Suc.IH obtain s i r where k: "?f k = (Some s, Some i, Some r)"
    and d: "\<bar>(s + i + r) - (s0 + i0 + r0)\<bar> \<le> real k * M / 2 ^ 49"
    by blast
  from Suc.prems k have r: "\<bar>r\<bar> \<le> M"
    by (metis le_Suc_eq option.inject prod.inject order_refl)
  from Suc.prems obtain s' i' r' where k': "?f (Suc k) = (Some s', Some i', Some r')"
    and b': "\<bar>s'\<bar> \<le> M" "\<bar>i'\<bar> \<le> M" "\<bar>r'\<bar> \<le> M"
    by blast
  have "euler_step N (b k) gamma (Some s, Some i, Some r) = (Some s', Some i', Some r')"
    using k k' by simp
  then have "\<bar>(s' + i' + r') - (s + i + r)\<bar> \<le> M / 2 ^ 49"
    using M r b' by (rule euler_step_drift)
  with d have "\<bar>(s' + i' + r') - (s0 + i0 + r0)\<bar> \<le> real k * M / 2 ^ 49 + M / 2 ^ 49"
    by linarith
  also have "\<dots> = real (Suc k) * M / 2 ^ 49"
    by (simp add: field_simps)
  finally show ?case using k' by blast
qed

section \<open>The recurrence in exact arithmetic\<close>

text \<open>Without rounding, a step conserves the sum of the three values when \<open>N\<close> is not zero.\<close>

lemma exact_traj_sum:
  assumes "N \<noteq> 0"
  shows "(case exact_traj N b gamma (s0, i0, r0) k of (s, i, r) \<Rightarrow> s + i + r) = s0 + i0 + r0"
proof (induction k)
  case 0
  then show ?case by simp
next
  case (Suc k)
  obtain s i r where "exact_traj N b gamma (s0, i0, r0) k = (s, i, r)"
    using prod_cases3 by blast
  with Suc show ?case by simp
qed

text \<open>
  Without rounding, a step keeps the three values non-negative when the rates are in
  \<open>[0, 1]\<close> and the values sum to a positive \<open>N\<close>.
\<close>

lemma exact_step_bounds:
  fixes N beta gamma s i r :: real
  assumes N: "0 < N" and beta: "0 \<le> beta" "beta \<le> 1" and gamma: "0 \<le> gamma" "gamma \<le> 1"
    and nonneg: "0 \<le> s" "0 \<le> i" "0 \<le> r" and total: "s + i + r = N"
  shows "0 \<le> s - beta * s * i / N"
    and "0 \<le> i + beta * s * i / N - gamma * i"
    and "0 \<le> r + gamma * i"
proof -
  have "i \<le> N" using nonneg total by linarith
  moreover have "beta * i \<le> 1 * i"
    using beta(2) nonneg(2) by (rule mult_right_mono)
  ultimately have "beta * i \<le> N" by simp
  then have "s * (beta * i) \<le> s * N"
    using nonneg(1) by (rule mult_left_mono)
  then have "beta * s * i \<le> s * N"
    by (simp add: mult.assoc mult.left_commute)
  then have "beta * s * i / N \<le> s"
    using N by (simp add: pos_divide_le_eq)
  then show "0 \<le> s - beta * s * i / N" by simp
  have "0 \<le> beta * s * i"
    using beta(1) nonneg(1,2) by simp
  then have inf: "0 \<le> beta * s * i / N"
    using N by simp
  have "gamma * i \<le> 1 * i"
    using gamma(2) nonneg(2) by (rule mult_right_mono)
  then show "0 \<le> i + beta * s * i / N - gamma * i"
    using inf by simp
  show "0 \<le> r + gamma * i"
    using gamma(1) nonneg(2,3) by simp
qed

lemma exact_traj_bounded:
  assumes N: "0 < N" and b: "\<forall>t. 0 \<le> b t \<and> b t \<le> 1" and gamma: "0 \<le> gamma" "gamma \<le> 1"
    and init: "0 \<le> s0" "0 \<le> i0" "0 \<le> r0" "s0 + i0 + r0 = N"
  shows "\<exists>s i r. exact_traj N b gamma (s0, i0, r0) k = (s, i, r) \<and>
           0 \<le> s \<and> 0 \<le> i \<and> 0 \<le> r \<and> s + i + r = N"
proof (induction k)
  case 0
  then show ?case using init by simp
next
  case (Suc k)
  then obtain s i r where k:
    "exact_traj N b gamma (s0, i0, r0) k = (s, i, r)"
    "0 \<le> s" "0 \<le> i" "0 \<le> r" "s + i + r = N"
    by blast
  have bk: "0 \<le> b k" "b k \<le> 1" using b by simp_all
  note bounds = exact_step_bounds [OF N bk gamma k(2,3,4,5)]
  have "exact_traj N b gamma (s0, i0, r0) (Suc k) =
      (s - b k * s * i / N, i + b k * s * i / N - gamma * i, r + gamma * i)"
    using k(1) by simp
  moreover have "(s - b k * s * i / N) + (i + b k * s * i / N - gamma * i) + (r + gamma * i) = N"
    using k(5) by simp
  ultimately show ?case
    using bounds by blast
qed

section \<open>Runs at concrete parameters\<close>

text \<open>
  The runs below are evaluated one step at a time. The rates \<^verbatim>\<open>0.3\<close>, \<^verbatim>\<open>0.15\<close> and
  \<^verbatim>\<open>0.1\<close> are the floats \<open>5404319552844595 / 2^54\<close>, \<open>5404319552844595 / 2^55\<close> and
  \<open>3602879701896397 / 2^55\<close>.
\<close>

lemma traj_next:
  assumes "traj N b gamma x k = y" and "Suc k = k'" and "euler_step N (b k) gamma y = z"
  shows "traj N b gamma x k' = z"
  using assms by auto

lemmas float_eval = round64_def round_to_def check_overflow_def expo_def round_even_def
  tie_even_def pow2_def bitlen.simps

lemma float_tenth: "round64 (1 / 10) = Some (3602879701896397 / 36028797018963968)"
  by (simp add: float_eval)

text \<open>The defaults of \<^verbatim>\<open>sir_model\<close>: \<^verbatim>\<open>N=1000, I0=1, R0=0, beta=0.3, gamma=0.1\<close>.\<close>

lemma default_run_0:
  "traj 1000 (\<lambda>t. 5404319552844595 / 18014398509481984) (3602879701896397 / 36028797018963968) (Some 999, Some 1, Some 0) 0 =
     (Some 999, Some 1, Some 0)"
  by simp

lemma default_run_1:
  "traj 1000 (\<lambda>t. 5404319552844595 / 18014398509481984) (3602879701896397 / 36028797018963968) (Some 999, Some 1, Some 0) 1 =
     (Some (2196165185026759 / 2199023255552), Some (168842764779887 / 140737488355328), Some (3602879701896397 / 36028797018963968))"
  by (rule traj_next [OF default_run_0]) (simp_all add: float_eval)

lemma default_run_2:
  "traj 1000 (\<lambda>t. 5404319552844595 / 18014398509481984) (3602879701896397 / 36028797018963968) (Some 999, Some 1, Some 0) 2 =
     (Some (274421845401877 / 274877906944), Some (3240727748055185 / 2251799813685248), Some (61916050627043 / 281474976710656))"
  by (rule traj_next [OF default_run_1]) (simp_all add: float_eval)

text \<open>The defaults of \<^verbatim>\<open>simulate_intervention\<close>, with \<^verbatim>\<open>beta_after=0.15\<close> from step 40 on.\<close>

lemma default_intervention_0:
  "traj 1000 (beta_at (5404319552844595 / 18014398509481984) (5404319552844595 / 36028797018963968) 40) (3602879701896397 / 36028797018963968) (Some 999, Some 1, Some 0) 0 =
     (Some 999, Some 1, Some 0)"
  by simp

lemma default_intervention_1:
  "traj 1000 (beta_at (5404319552844595 / 18014398509481984) (5404319552844595 / 36028797018963968) 40) (3602879701896397 / 36028797018963968) (Some 999, Some 1, Some 0) 1 =
     (Some (2196165185026759 / 2199023255552), Some (168842764779887 / 140737488355328), Some (3602879701896397 / 36028797018963968))"
  by (rule traj_next [OF default_intervention_0]) (simp_all add: float_eval beta_at_def)

lemma default_intervention_2:
  "traj 1000 (beta_at (5404319552844595 / 18014398509481984) (5404319552844595 / 36028797018963968) 40) (3602879701896397 / 36028797018963968) (Some 999, Some 1, Some 0) 2 =
     (Some (274421845401877 / 274877906944), Some (3240727748055185 / 2251799813685248), Some (61916050627043 / 281474976710656))"
  by (rule traj_next [OF default_intervention_1]) (simp_all add: float_eval beta_at_def)

text \<open>No transmission and a recovery rate of 3.\<close>

lemma fast_recovery_0:
  "traj 1000 (\<lambda>t. 0) 3 (Some 999, Some 1, Some 0) 0 =
     (Some 999, Some 1, Some 0)"
  by simp

lemma fast_recovery_1:
  "traj 1000 (\<lambda>t. 0) 3 (Some 999, Some 1, Some 0) 1 =
     (Some 999, Some (- 2), Some 3)"
  by (rule traj_next [OF fast_recovery_0]) (simp_all add: float_eval)

lemma fast_recovery_2:
  "traj 1000 (\<lambda>t. 0) 3 (Some 999, Some 1, Some 0) 2 =
     (Some 999, Some 4, Some (- 3))"
  by (rule traj_next [OF fast_recovery_1]) (simp_all add: float_eval)

text \<open>Both rates 1, with \<^verbatim>\<open>N = I0 = R0 = 100\<close>.\<close>

lemma unit_rates_0:
  "traj 100 (\<lambda>t. 1) 1 (Some (- 100), Some 100, Some 100) 0 =
     (Some (- 100), Some 100, Some 100)"
  by simp

lemma unit_rates_1:
  "traj 100 (\<lambda>t. 1) 1 (Some (- 100), Some 100, Some 100) 1 =
     (Some 0, Some (- 100), Some 200)"
  by (rule traj_next [OF unit_rates_0]) (simp_all add: float_eval)

lemma unit_rates_2:
  "traj 100 (\<lambda>t. 1) 1 (Some (- 100), Some 100, Some 100) 2 =
     (Some 0, Some 0, Some 100)"
  by (rule traj_next [OF unit_rates_1]) (simp_all add: float_eval)

text \<open>\<^verbatim>\<open>N=1000, I0=1, R0=0, beta=0.0, gamma=0.1\<close>, ten records.\<close>

lemma no_transmission_0:
  "traj 1000 (\<lambda>t. 0) (3602879701896397 / 36028797018963968) (Some 999, Some 1, Some 0) 0 =
     (Some 999, Some 1, Some 0)"
  by simp

lemma no_transmission_1:
  "traj 1000 (\<lambda>t. 0) (3602879701896397 / 36028797018963968) (Some 999, Some 1, Some 0) 1 =
     (Some 999, Some (8106479329266893 / 9007199254740992), Some (3602879701896397 / 36028797018963968))"
  by (rule traj_next [OF no_transmission_0]) (simp_all add: float_eval)

lemma no_transmission_2:
  "traj 1000 (\<lambda>t. 0) (3602879701896397 / 36028797018963968) (Some 999, Some 1, Some 0) 2 =
     (Some 999, Some (1823957849085051 / 2251799813685248), Some (3422735716801577 / 18014398509481984))"
  by (rule traj_next [OF no_transmission_1]) (simp_all add: float_eval)

lemma no_transmission_3:
  "traj 1000 (\<lambda>t. 0) (3602879701896397 / 36028797018963968) (Some 999, Some 1, Some 0) 3 =
     (Some 999, Some (820781032088273 / 1125899906842624), Some (2440950998034809 / 9007199254740992))"
  by (rule traj_next [OF no_transmission_2]) (simp_all add: float_eval)

lemma no_transmission_4:
  "traj 1000 (\<lambda>t. 0) (3602879701896397 / 36028797018963968) (Some 999, Some 1, Some 0) 4 =
     (Some 999, Some (2954811715517783 / 4503599627370496), Some (6195151647410855 / 18014398509481984))"
  by (rule traj_next [OF no_transmission_3]) (simp_all add: float_eval)

lemma no_transmission_5:
  "traj 1000 (\<lambda>t. 0) (3602879701896397 / 36028797018963968) (Some 999, Some 1, Some 0) 5 =
     (Some 999, Some (5318661087932009 / 9007199254740992), Some (461067270851123 / 1125899906842624))"
  by (rule traj_next [OF no_transmission_4]) (simp_all add: float_eval)

lemma no_transmission_6:
  "traj 1000 (\<lambda>t. 0) (3602879701896397 / 36028797018963968) (Some 999, Some 1, Some 0) 6 =
     (Some 999, Some (598349372392351 / 1125899906842624), Some (4220404275602185 / 9007199254740992))"
  by (rule traj_next [OF no_transmission_5]) (simp_all add: float_eval)

lemma no_transmission_7:
  "traj 1000 (\<lambda>t. 0) (3602879701896397 / 36028797018963968) (Some 999, Some 1, Some 0) 7 =
     (Some 999, Some (4308115481224927 / 9007199254740992), Some (2349541886758033 / 4503599627370496))"
  by (rule traj_next [OF no_transmission_6]) (simp_all add: float_eval)

lemma no_transmission_8:
  "traj 1000 (\<lambda>t. 0) (3602879701896397 / 36028797018963968) (Some 999, Some 1, Some 0) 8 =
     (Some 999, Some (1938651966551217 / 4503599627370496), Some (5129895321638559 / 9007199254740992))"
  by (rule traj_next [OF no_transmission_7]) (simp_all add: float_eval)

lemma no_transmission_9:
  "traj 1000 (\<lambda>t. 0) (3602879701896397 / 36028797018963968) (Some 999, Some 1, Some 0) 9 =
     (Some 999, Some (6979147079584381 / 18014398509481984), Some (2758812857474401 / 4503599627370496))"
  by (rule traj_next [OF no_transmission_8]) (simp_all add: float_eval)

text \<open>\<^verbatim>\<open>N=14, I0=13, R0=0, beta=1, gamma=0\<close>, six records.\<close>

lemma overshoot_0:
  "traj 14 (\<lambda>t. 1) 0 (Some 1, Some 13, Some 0) 0 =
     (Some 1, Some 13, Some 0)"
  by simp

lemma overshoot_1:
  "traj 14 (\<lambda>t. 1) 0 (Some 1, Some 13, Some 0) 1 =
     (Some (321685687669321 / 4503599627370496), Some (7841088636939703 / 562949953421312), Some 0)"
  by (rule traj_next [OF overshoot_0]) (simp_all add: float_eval)

lemma overshoot_2:
  "traj 14 (\<lambda>t. 1) 0 (Some 1, Some 13, Some 0) 2 =
     (Some (26260056136271 / 72057594037927936), Some (1970273547802451 / 140737488355328), Some 0)"
  by (rule traj_next [OF overshoot_1]) (simp_all add: float_eval)

lemma overshoot_3:
  "traj 14 (\<lambda>t. 1) 0 (Some 1, Some 13, Some 0) 3 =
     (Some (5468566459 / 576460752303423488), Some (1970324835639493 / 140737488355328), Some 0)"
  by (rule traj_next [OF overshoot_2]) (simp_all add: float_eval)

lemma overshoot_4:
  "traj 14 (\<lambda>t. 1) 0 (Some 1, Some 13, Some 0) 4 =
     (Some (3885519 / 604462909807314587353088), Some (7881299347898369 / 562949953421312), Some 0)"
  by (rule traj_next [OF overshoot_3]) (simp_all add: float_eval)

lemma overshoot_5:
  "traj 14 (\<lambda>t. 1) 0 (Some 1, Some 13, Some 0) 5 =
     (Some (- (1 / 1298074214633706907132624082305024)), Some (7881299347898369 / 562949953421312), Some 0)"
  by (rule traj_next [OF overshoot_4]) (simp_all add: float_eval)

text \<open>Small lists and ranges, written out.\<close>

lemma le_two_cases: "j \<le> 2 \<Longrightarrow> j = 0 \<or> j = Suc 0 \<or> j = (2::nat)"
  by arith

lemma upt_10: "[0..<10] = [0, 1, 2, 3, 4, 5, 6, 7, 8, 9::nat]"
  by (simp add: upt_rec)

lemma replicate_10: "replicate 10 x = [x, x, x, x, x, x, x, x, x, x]"
  by (simp add: eval_nat_numeral)

section \<open>Properties of the two simulators\<close>
text \<open>The records of the two series, in terms of the recurrence.\<close>

lemma row_at_sir_model:
  assumes "k < nat timesteps"
  shows "row_at (sir_model N I0 R0 beta gamma timesteps) k =
           (case traj N (\<lambda>t. beta) gamma (Some (N - I0 - R0), Some I0, Some R0) k of
              (s, i, r) \<Rightarrow> Some (int k + 1, s, i, r))"
proof -
  have "1 \<le> timesteps" using assms by simp
  then show ?thesis
    using assms by (simp add: sir_model_traj row_at_frame_of split: prod.splits)
qed

lemma row_at_simulate_intervention:
  assumes "k < nat timesteps"
  shows "row_at (simulate_intervention N I0 R0 bb ba it gamma timesteps) k =
           (case traj N (beta_at bb ba it) gamma (Some (N - I0 - R0), Some I0, Some R0) k of
              (s, i, r) \<Rightarrow> Some (int k + 1, s, i, r))"
proof -
  have "1 \<le> timesteps" using assms by simp
  then show ?thesis
    using assms by (simp add: simulate_intervention_traj row_at_frame_of split: prod.splits)
qed

text \<open>Conservation up to rounding, for a series whose records are those of the recurrence.\<close>

lemma row_within_traj:
  assumes "row_within M (Some (l, x))"
  shows "\<exists>s i r. x = (Some s, Some i, Some r) \<and> \<bar>s\<bar> \<le> M \<and> \<bar>i\<bar> \<le> M \<and> \<bar>r\<bar> \<le> M"
proof -
  obtain a b c where x: "x = (a, b, c)" using prod_cases3 by blast
  show ?thesis
    using assms unfolding x
    by (cases a; cases b; cases c) (simp_all add: row_within_def)
qed

lemma float_conservation:
  assumes k: "k < nat timesteps" and M: "pow2 (- 1022) \<le> M"
    and rows: "\<And>j. j < nat timesteps \<Longrightarrow>
        row j = Some (int j + 1, traj N b gamma (Some (N - I0 - R0), Some I0, Some R0) j)"
    and fin: "\<forall>j\<le>k. row_within M (row j)"
  shows "sum_near (real k * M / 2 ^ 49) N (row k)"
proof -
  let ?f = "traj N b gamma (Some (N - I0 - R0), Some I0, Some R0)"
  have "\<forall>j\<le>k. \<exists>s i r. ?f j = (Some s, Some i, Some r) \<and> \<bar>s\<bar> \<le> M \<and> \<bar>i\<bar> \<le> M \<and> \<bar>r\<bar> \<le> M"
  proof (intro allI impI)
    fix j assume j: "j \<le> k"
    then have "j < nat timesteps" using k by simp
    then have "row j = Some (int j + 1, ?f j)"
      by (rule rows)
    moreover have "row_within M (row j)"
      using fin j by simp
    ultimately have "row_within M (Some (int j + 1, ?f j))"
      by simp
    then show "\<exists>s i r. ?f j = (Some s, Some i, Some r) \<and> \<bar>s\<bar> \<le> M \<and> \<bar>i\<bar> \<le> M \<and> \<bar>r\<bar> \<le> M"
      by (rule row_within_traj)
  qed
  then obtain s i r where "?f k = (Some s, Some i, Some r)"
    and "\<bar>(s + i + r) - ((N - I0 - R0) + I0 + R0)\<bar> \<le> real k * M / 2 ^ 49"
    using traj_drift [OF M] by blast
  then show ?thesis
    using rows [OF k] by (simp add: sum_near_def)
qed




text \<open>The two records of that run.\<close>

lemma population_zero_rows:
  "row_at (sir_model 0 0 0 (5404319552844595 / 18014398509481984) (3602879701896397 / 36028797018963968) 2) 0 = Some (1, Some 0, Some 0, Some 0)"
  "row_at (sir_model 0 0 0 (5404319552844595 / 18014398509481984) (3602879701896397 / 36028797018963968) 2) 1 = Some (2, None, None, Some 0)"
  by (simp_all add: row_at_sir_model)

text \<open>
  Values that are not finite also arise with a population that is not zero, when a product
  overflows.
\<close>

lemma overflow_rows:
  "row_at (sir_model (2 ^ 101) (2 ^ 100) 0 (2 ^ 1000) 0 2) 1 = Some (2, None, None, Some 0)"
  by (simp add: row_at_sir_model float_eval)

text \<open>
  Claim C2. For every parameter set, \<^verbatim>\<open>simulate_intervention\<close> with
  \<^verbatim>\<open>beta_before\<close> equal to \<^verbatim>\<open>beta_after\<close> returns exactly what \<^verbatim>\<open>sir_model\<close>
  returns with that rate and otherwise the same parameters: the same series, record for
  record, or the same failure.
\<close>

theorem no_intervention_equivalence:
  "simulate_intervention N I0 R0 beta beta intervention_time gamma timesteps =
     sir_model N I0 R0 beta gamma timesteps"
proof (cases "1 \<le> timesteps")
  case True
  have "beta_at beta beta intervention_time = (\<lambda>t. beta)"
    by (simp add: beta_at_def fun_eq_iff)
  then show ?thesis
    using True by (simp add: simulate_intervention_traj sir_model_traj)
next
  case False
  then show ?thesis
    by (simp add: simulate_intervention_fails sir_model_fails)
qed

text \<open>A run whose every step uses one rate is a plain run with that rate.\<close>

lemma frame_of_cong:
  assumes "\<forall>k<nat timesteps. f k = g k"
  shows "frame_of f timesteps = frame_of g timesteps"
  using assms by (simp add: frame_of_def)

lemma single_regime:
  assumes "\<forall>t. Suc t < nat timesteps \<longrightarrow> beta_at bb ba it t = beta"
  shows "simulate_intervention N I0 R0 bb ba it gamma timesteps =
           sir_model N I0 R0 beta gamma timesteps"
proof (cases "1 \<le> timesteps")
  case True
  have "traj N (beta_at bb ba it) gamma x k = traj N (\<lambda>t. beta) gamma x k"
    if "k < nat timesteps" for k x
    using that assms by (intro traj_cong) auto
  then show ?thesis
    using True by (simp add: simulate_intervention_traj sir_model_traj frame_of_cong)
next
  case False
  then show ?thesis
    by (simp add: simulate_intervention_fails sir_model_fails)
qed

text \<open>
  Claim C3. For every parameter set, \<^verbatim>\<open>simulate_intervention\<close> with
  \<^verbatim>\<open>intervention_time <= 0\<close> returns what \<^verbatim>\<open>sir_model\<close> returns with
  \<^verbatim>\<open>beta = beta_after\<close>, and with \<^verbatim>\<open>intervention_time >= timesteps - 1\<close> it returns
  what \<^verbatim>\<open>sir_model\<close> returns with \<^verbatim>\<open>beta = beta_before\<close>.
\<close>

theorem boundary_intervention:
  "(intervention_time \<le> 0 \<longrightarrow>
      simulate_intervention N I0 R0 beta_before beta_after intervention_time gamma timesteps =
        sir_model N I0 R0 beta_after gamma timesteps) \<and>
   (timesteps - 1 \<le> intervention_time \<longrightarrow>
      simulate_intervention N I0 R0 beta_before beta_after intervention_time gamma timesteps =
        sir_model N I0 R0 beta_before gamma timesteps)"
proof (intro conjI impI)
  assume "intervention_time \<le> 0"
  then have "\<forall>t. Suc t < nat timesteps \<longrightarrow>
      beta_at beta_before beta_after intervention_time t = beta_after"
    by (simp add: beta_at_def)
  then show "simulate_intervention N I0 R0 beta_before beta_after intervention_time gamma timesteps =
        sir_model N I0 R0 beta_after gamma timesteps"
    by (rule single_regime)
next
  assume "timesteps - 1 \<le> intervention_time"
  then have "\<forall>t. Suc t < nat timesteps \<longrightarrow>
      beta_at beta_before beta_after intervention_time t = beta_before"
    by (auto simp: beta_at_def)
  then show "simulate_intervention N I0 R0 beta_before beta_after intervention_time gamma timesteps =
        sir_model N I0 R0 beta_before gamma timesteps"
    by (rule single_regime)
qed

text \<open>Both halves at the default parameters, with the intervention at step 0 and at step 159.\<close>

theorem boundary_intervention_witness:
  "simulate_intervention 1000 1 0 (3/10) (15/100) 0 (1/10) 160 =
     sir_model 1000 1 0 (15/100) (1/10) 160 \<and>
   simulate_intervention 1000 1 0 (3/10) (15/100) 159 (1/10) 160 =
     sir_model 1000 1 0 (3/10) (1/10) 160"
  using boundary_intervention [of 0 1000 1 0 "3/10" "15/100" "1/10" 160]
    boundary_intervention [of 159 1000 1 0 "3/10" "15/100" "1/10" 160]
  by simp



text \<open>
  Claim C5. For \<^verbatim>\<open>timesteps >= 1\<close>, both functions return a series: each of its columns
  has exactly \<^verbatim>\<open>timesteps\<close> entries, and the time label at index \<open>k\<close> is \<open>k + 1\<close>,
  so the labels are 1, 2, ..., \<^verbatim>\<open>timesteps\<close> in that order and the initial state carries
  the label 1.
\<close>

theorem time_labels:
  assumes "1 \<le> timesteps"
  shows "\<exists>d d'. sir_model N I0 R0 beta gamma timesteps = Inr d \<and>
           simulate_intervention N I0 R0 beta_before beta_after intervention_time gamma timesteps
             = Inr d' \<and>
           time d = map (\<lambda>k. int k + 1) [0..<nat timesteps] \<and>
           time d' = map (\<lambda>k. int k + 1) [0..<nat timesteps] \<and>
           length (susceptible d) = nat timesteps \<and> length (infectious d) = nat timesteps \<and>
           length (recovered d) = nat timesteps \<and>
           length (susceptible d') = nat timesteps \<and> length (infectious d') = nat timesteps \<and>
           length (recovered d') = nat timesteps"
proof -
  have "0 \<le> timesteps" using assms by simp
  then show ?thesis
    using assms by (simp add: sir_model_traj simulate_intervention_traj frame_of_shape)
qed

text \<open>Five time steps: the labels are 1 to 5.\<close>

theorem time_labels_witness:
  "\<exists>d d'. sir_model 1000 1 0 (3/10) (1/10) 5 = Inr d \<and>
     simulate_intervention 1000 1 0 (3/10) (15/100) 2 (1/10) 5 = Inr d' \<and>
     time d = [1, 2, 3, 4, 5] \<and> time d' = [1, 2, 3, 4, 5] \<and>
     length (susceptible d) = 5 \<and> length (infectious d) = 5 \<and> length (recovered d) = 5 \<and>
     length (susceptible d') = 5 \<and> length (infectious d') = 5 \<and> length (recovered d') = 5"
  using time_labels [of 5 1000 1 0 "3/10" "1/10" "3/10" "15/100" 2]
  by (simp add: upt_rec)

text \<open>
  Claim C6 (amended). In the series returned by \<^verbatim>\<open>sir_model\<close>, with \<^verbatim>\<open>R0\<close> a
  float: whenever the infectious value of a record is a non-negative number,
  \<^verbatim>\<open>gamma\<close> is non-negative and the recovered values of that record and of the next are
  finite, the recovered value of the next record is at least that of the record.
\<close>

theorem recovered_monotone:
  assumes "row_at (sir_model N I0 R0 beta gamma timesteps) t = Some (l, s, Some i, Some r0)"
    and "row_at (sir_model N I0 R0 beta gamma timesteps) (Suc t) = Some (l', s', i', Some r1)"
    and "0 \<le> i" and "0 \<le> gamma" and "round64 R0 = Some R0"
  shows "r0 \<le> r1"
proof -
  let ?f = "traj N (\<lambda>t. beta) gamma (Some (N - I0 - R0), Some I0, Some R0)"
  have len: "Suc t < nat timesteps"
  proof (rule ccontr)
    assume "\<not> Suc t < nat timesteps"
    then have "row_at (sir_model N I0 R0 beta gamma timesteps) (Suc t) = None"
      by (cases "1 \<le> timesteps")
        (simp_all add: sir_model_traj sir_model_fails row_at_def frame_of_shape)
    with assms(2) show False by simp
  qed
  then have t: "t < nat timesteps" by simp
  have ft: "?f t = (s, Some i, Some r0)"
    using assms(1) t by (simp add: row_at_sir_model split: prod.splits)
  have fs: "?f (Suc t) = (s', i', Some r1)"
    using assms(2) len by (simp add: row_at_sir_model split: prod.splits del: traj.simps)
  have "round64 r0 = Some r0"
    using assms(5) ft by (rule traj_recovered_float)
  moreover have "fadd (Some r0) (fmul (Some gamma) (Some i)) = Some r1"
    using fs ft by simp
  ultimately show ?thesis
    using assms(3,4) by (rule recovered_step)
qed

text \<open>The first two records at the default parameters.\<close>

theorem recovered_monotone_witness:
  "row_at (sir_model 1000 1 0 (5404319552844595 / 18014398509481984) (3602879701896397 / 36028797018963968) 160) 0 = Some (1, Some 999, Some 1, Some 0) \<and>
   row_at (sir_model 1000 1 0 (5404319552844595 / 18014398509481984) (3602879701896397 / 36028797018963968) 160) (Suc 0) =
     Some (2, Some (2196165185026759 / 2199023255552), Some (168842764779887 / 140737488355328), Some (3602879701896397 / 36028797018963968)) \<and>
   (0::real) \<le> (3602879701896397 / 36028797018963968)"
proof -
  have row0: "row_at (sir_model 1000 1 0 (5404319552844595 / 18014398509481984) (3602879701896397 / 36028797018963968) 160) 0 = Some (1, Some 999, Some 1, Some 0)"
    by (simp add: row_at_sir_model)
  have row1: "row_at (sir_model 1000 1 0 (5404319552844595 / 18014398509481984) (3602879701896397 / 36028797018963968) 160) (Suc 0) =
      Some (2, Some (2196165185026759 / 2199023255552), Some (168842764779887 / 140737488355328), Some (3602879701896397 / 36028797018963968))"
    using default_run_1 by (simp add: row_at_sir_model)
  have "(0::real) \<le> (3602879701896397 / 36028797018963968)"
    using recovered_monotone [OF row0 row1] by simp
  with row0 row1 show ?thesis by simp
qed

text \<open>
  Without the condition on the infectious value the recovered value can fall. The loop
  does not clamp, so with \<^verbatim>\<open>N=1000, I0=1, R0=0, beta=0, gamma=3\<close> the infectious value
  of the second record is \<open>-2\<close>, and the recovered value falls from \<open>3\<close> in the second
  record to \<open>-3\<close> in the third.
\<close>

theorem recovered_can_decrease:
  "row_at (sir_model 1000 1 0 0 3 3) 1 = Some (2, Some 999, Some (- 2), Some 3) \<and>
   row_at (sir_model 1000 1 0 0 3 3) 2 = Some (3, Some 999, Some 4, Some (- 3))"
  using fast_recovery_1 fast_recovery_2 by (simp add: row_at_sir_model)

text \<open>
  So it can with both rates equal to 1, when \<^verbatim>\<open>I0 + R0\<close> exceeds \<^verbatim>\<open>N\<close>: the
  recovered values are 100, 200, 100.
\<close>

lemma unit_rates_decrease:
  "row_at (sir_model 100 100 100 1 1 50) 1 = Some (2, Some 0, Some (- 100), Some 200) \<and>
   row_at (sir_model 100 100 100 1 1 50) 2 = Some (3, Some 0, Some 0, Some 100)"
  using unit_rates_1 unit_rates_2 by (simp add: row_at_sir_model)

text \<open>
  Claim C7 (amended). For \<^verbatim>\<open>N=1000, I0=1, R0=0, beta=0.0, gamma=0.1, timesteps=10\<close>,
  \<^verbatim>\<open>sir_model\<close> returns a series of 10 records in which all 10 susceptible values are
  \<open>N - I0 = 999\<close>, the infectious values are the ten floats listed, and every infectious
  value but the first is the one before it times \<open>1 - 1/10\<close> up to one unit in the last
  place (\<open>decays_by\<close> relates each entry of the infectious column without its last entry to
  the entry after it).
\<close>

theorem scenario_no_transmission:
  "\<exists>d. sir_model 1000 1 0 0 (3602879701896397 / 36028797018963968) 10 = Inr d \<and>
     susceptible d = replicate 10 (Some (1000 - 1)) \<and>
     infectious d =
       [Some 1,
        Some (8106479329266893 / 9007199254740992),
        Some (1823957849085051 / 2251799813685248),
        Some (820781032088273 / 1125899906842624),
        Some (2954811715517783 / 4503599627370496),
        Some (5318661087932009 / 9007199254740992),
        Some (598349372392351 / 1125899906842624),
        Some (4308115481224927 / 9007199254740992),
        Some (1938651966551217 / 4503599627370496),
        Some (6979147079584381 / 18014398509481984)] \<and>
     list_all2 (decays_by (1 - 1 / 10)) (butlast (infectious d)) (tl (infectious d))"
proof -
  let ?f = "traj 1000 (\<lambda>t. 0) (3602879701896397 / 36028797018963968) (Some 999, Some 1, Some 0)"
  note rows = no_transmission_0 no_transmission_1 [unfolded One_nat_def] no_transmission_2
    no_transmission_3
    no_transmission_4 no_transmission_5 no_transmission_6 no_transmission_7 no_transmission_8
    no_transmission_9
  have d: "sir_model 1000 1 0 0 (3602879701896397 / 36028797018963968) 10 = Inr (frame_of ?f 10)"
    using sir_model_traj [of 10 1000 1 0 0 "3602879701896397 / 36028797018963968"] by simp
  have sus: "susceptible (frame_of ?f 10) = replicate 10 (Some 999)"
    by (simp add: frame_of_def upt_10 rows replicate_10 del: traj.simps)
  have inf: "infectious (frame_of ?f 10) =
       [Some 1,
        Some (8106479329266893 / 9007199254740992),
        Some (1823957849085051 / 2251799813685248),
        Some (820781032088273 / 1125899906842624),
        Some (2954811715517783 / 4503599627370496),
        Some (5318661087932009 / 9007199254740992),
        Some (598349372392351 / 1125899906842624),
        Some (4308115481224927 / 9007199254740992),
        Some (1938651966551217 / 4503599627370496),
        Some (6979147079584381 / 18014398509481984)]"
    by (simp add: frame_of_def upt_10 rows del: traj.simps)
  have "list_all2 (decays_by (1 - 1 / 10)) (butlast (infectious (frame_of ?f 10)))
      (tl (infectious (frame_of ?f 10)))"
    unfolding inf by (simp add: decays_by_def)
  then show ?thesis
    using d sus inf by simp
qed

text \<open>
  The decay is not exact. From the fifth record to the sixth the infectious value is not
  the one before it times \<open>1 - gamma\<close>, whether the product is taken in floats, or exactly
  with the float \<^verbatim>\<open>0.1\<close>, or exactly with \<open>1/10\<close>.
\<close>

theorem decay_not_exact:
  "row_at (sir_model 1000 1 0 0 (3602879701896397 / 36028797018963968) 10) 4 =
     Some (5, Some 999, Some (2954811715517783 / 4503599627370496), Some (6195151647410855 / 18014398509481984)) \<and>
   row_at (sir_model 1000 1 0 0 (3602879701896397 / 36028797018963968) 10) 5 =
     Some (6, Some 999, Some (5318661087932009 / 9007199254740992), Some (461067270851123 / 1125899906842624)) \<and>
   fmul (Some (2954811715517783 / 4503599627370496)) (fsub (Some 1) (Some (3602879701896397 / 36028797018963968))) \<noteq> Some (5318661087932009 / 9007199254740992) \<and>
   (2954811715517783 / 4503599627370496) * (1 - (3602879701896397 / 36028797018963968)) \<noteq> ((5318661087932009 / 9007199254740992) :: real) \<and>
   (2954811715517783 / 4503599627370496) * (1 - 1 / 10) \<noteq> ((5318661087932009 / 9007199254740992) :: real)"
  using no_transmission_4 no_transmission_5
  by (simp add: row_at_sir_model float_eval)

text \<open>
  Claim C8. For \<^verbatim>\<open>timesteps < 1\<close>, \<^verbatim>\<open>sir_model\<close> and
  \<^verbatim>\<open>simulate_intervention\<close> fail and return no series: \<^verbatim>\<open>np.zeros\<close> raises a
  \<^verbatim>\<open>ValueError\<close> for a negative \<^verbatim>\<open>timesteps\<close>, and for \<^verbatim>\<open>timesteps = 0\<close> the
  write of the initial state into the empty array raises an \<^verbatim>\<open>IndexError\<close>.
\<close>

theorem invalid_timesteps:
  assumes "timesteps < 1"
  shows "sir_model N I0 R0 beta gamma timesteps =
           Inl (if timesteps < 0 then ValueError else IndexError) \<and>
         simulate_intervention N I0 R0 beta_before beta_after intervention_time gamma timesteps =
           Inl (if timesteps < 0 then ValueError else IndexError)"
  using assms by (simp add: sir_model_fails simulate_intervention_fails)

text \<open>Both failures, at \<^verbatim>\<open>timesteps = 0\<close> and at \<^verbatim>\<open>timesteps = -5\<close>.\<close>

theorem invalid_timesteps_witness:
  "sir_model 1000 1 0 (3/10) (1/10) 0 = Inl IndexError \<and>
   simulate_intervention 1000 1 0 (3/10) (15/100) 40 (1/10) 0 = Inl IndexError \<and>
   sir_model 1000 1 0 (3/10) (1/10) (- 5) = Inl ValueError \<and>
   simulate_intervention 1000 1 0 (3/10) (15/100) 40 (1/10) (- 5) = Inl ValueError"
  using invalid_timesteps [of 0 1000 1 0 "3/10" "1/10" "3/10" "15/100" 40]
    invalid_timesteps [of "- 5" 1000 1 0 "3/10" "1/10" "3/10" "15/100" 40]
  by simp

text \<open>
  Claim C9. For every parameter set, every record of index at most
  \<^verbatim>\<open>min(intervention_time, timesteps - 1)\<close> exists in the series returned by
  \<^verbatim>\<open>simulate_intervention\<close> and is the record of the same index in the series returned
  by \<^verbatim>\<open>sir_model\<close> with \<^verbatim>\<open>beta = beta_before\<close>.
\<close>

theorem before_intervention:
  assumes "int k \<le> min intervention_time (timesteps - 1)"
  shows "\<exists>x. row_at (simulate_intervention N I0 R0 beta_before beta_after intervention_time gamma
                       timesteps) k = Some x \<and>
             row_at (sir_model N I0 R0 beta_before gamma timesteps) k = Some x"
proof -
  have k: "k < nat timesteps" using assms by linarith
  have "\<forall>t<k. beta_at beta_before beta_after intervention_time t = beta_before"
    using assms by (simp add: beta_at_def)
  then have "traj N (beta_at beta_before beta_after intervention_time) gamma x k =
             traj N (\<lambda>t. beta_before) gamma x k" for x
    by (rule traj_cong)
  moreover obtain s i r where
    "traj N (\<lambda>t. beta_before) gamma (Some (N - I0 - R0), Some I0, Some R0) k = (s, i, r)"
    using prod_cases3 by blast
  ultimately show ?thesis
    using k by (simp add: row_at_sir_model row_at_simulate_intervention)
qed

text \<open>The record at the intervention time itself, index 40 of 160.\<close>

theorem before_intervention_witness:
  "\<exists>x. row_at (simulate_intervention 1000 1 0 (3/10) (15/100) 40 (1/10) 160) 40 = Some x \<and>
       row_at (sir_model 1000 1 0 (3/10) (1/10) 160) 40 = Some x"
  using before_intervention [of 40 40 160 1000 1 0 "3/10" "15/100" "1/10"] by simp




end
